theory Spec2Isabelle
  imports Complex_Main "HOL-Library.AList"
begin

section \<open>Strings and insertion-ordered collections\<close>

text \<open>
  A JavaScript string is modelled as a \<^typ>\<open>string\<close>, one \<^typ>\<open>char\<close> per code unit.
  A \<^verbatim>\<open>Map\<close> is an association list in insertion order with distinct keys:
  \<^const>\<open>map_of\<close> is \<^verbatim>\<open>get\<close>, \<^const>\<open>AList.update\<close> is \<^verbatim>\<open>set\<close> (it overwrites
  in place or appends), and the keys are \<^term>\<open>map fst m\<close>. Line numbers, lengths,
  counts and budgets are integers. A thrown exception is the \<open>Inl\<close> result of a function.
\<close>

definition isWordChar :: "char \<Rightarrow> bool" where
  \<comment> \<open>the regular expression class \<^verbatim>\<open>\w\<close>: \<^verbatim>\<open>[A-Za-z0-9_]\<close>\<close>
  "isWordChar c =
     (let n = (of_char c :: nat)
      in (48 \<le> n \<and> n \<le> 57) \<or> (65 \<le> n \<and> n \<le> 90) \<or> n = 95 \<or> (97 \<le> n \<and> n \<le> 122))"

definition toLowerChar :: "char \<Rightarrow> char" where
  "toLowerChar c =
     (let n = (of_char c :: nat) in if 65 \<le> n \<and> n \<le> 90 then char_of (n + 32) else c)"

definition toLowerCase :: "string \<Rightarrow> string" where
  \<comment> \<open>applied to matches of \<^verbatim>\<open>\w+\<close> only, where just \<^verbatim>\<open>A-Z\<close> change\<close>
  "toLowerCase s = map toLowerChar s"

fun matchWords :: "string \<Rightarrow> string \<Rightarrow> string list" where
  \<comment> \<open>\<^verbatim>\<open>s.match(/\b\w+\b/g) || []\<close>: the maximal runs of word characters, left to right;
      the first argument is the run being read, reversed\<close>
  "matchWords acc [] = (if acc = [] then [] else [rev acc])"
| "matchWords acc (c # cs) =
     (if isWordChar c then matchWords (c # acc) cs
      else (if acc = [] then [] else [rev acc]) @ matchWords [] cs)"

definition jsSetOf :: "'a list \<Rightarrow> 'a list" where
  \<comment> \<open>\<^verbatim>\<open>new Set(xs)\<close> in iteration order: the first occurrence of each element\<close>
  "jsSetOf xs = fold (\<lambda>x s. if x \<in> set s then s else s @ [x]) xs []"

definition isWhiteSpace :: "char \<Rightarrow> bool" where
  \<comment> \<open>the white space and line terminators that \<^verbatim>\<open>trim\<close> and \<^verbatim>\<open>\s\<close> remove, among
      the code units below 256: tab, LF, VT, FF, CR, space, no-break space\<close>
  "isWhiteSpace c = (let n = (of_char c :: nat) in (9 \<le> n \<and> n \<le> 13) \<or> n = 32 \<or> n = 160)"

definition trim :: "string \<Rightarrow> string" where
  "trim s = rev (dropWhile isWhiteSpace (rev (dropWhile isWhiteSpace s)))"

definition startsWith :: "string \<Rightarrow> string \<Rightarrow> bool" where
  "startsWith s p = (take (length p) s = p)"

definition endsWith :: "string \<Rightarrow> string \<Rightarrow> bool" where
  "endsWith s p = (length p \<le> length s \<and> drop (length s - length p) s = p)"

definition substring :: "string \<Rightarrow> int \<Rightarrow> int \<Rightarrow> string" where
  \<comment> \<open>\<^verbatim>\<open>s.substring(a, b)\<close>: both indices are clamped to \<^verbatim>\<open>[0, s.length]\<close> and swapped
      when \<^verbatim>\<open>a > b\<close>\<close>
  "substring s a b =
     (let n = int (length s);
          a' = min (max a 0) n;
          b' = min (max b 0) n;
          lo = min a' b';
          hi = max a' b'
      in take (nat (hi - lo)) (drop (nat lo) s))"

definition substringFrom :: "string \<Rightarrow> int \<Rightarrow> string" where
  \<comment> \<open>\<^verbatim>\<open>s.substring(a)\<close>\<close>
  "substringFrom s a = substring s a (int (length s))"

fun splitLines :: "string \<Rightarrow> string list" where
  \<comment> \<open>\<^verbatim>\<open>s.split("\n")\<close>: never empty, \<^verbatim>\<open>"".split("\n")\<close> is \<^verbatim>\<open>[""]\<close>\<close>
  "splitLines [] = [[]]"
| "splitLines (c # cs) =
     (if c = CHR 0x0A then [] # splitLines cs
      else (case splitLines cs of [] \<Rightarrow> [[c]] | l # ls \<Rightarrow> (c # l) # ls))"

fun joinWith :: "string \<Rightarrow> string list \<Rightarrow> string" where
  \<comment> \<open>\<^verbatim>\<open>parts.join(sep)\<close>\<close>
  "joinWith sep [] = []"
| "joinWith sep [x] = x"
| "joinWith sep (x # y # ys) = x @ sep @ joinWith sep (y # ys)"

fun indexOfFrom :: "string \<Rightarrow> char \<Rightarrow> nat \<Rightarrow> int" where
  \<comment> \<open>the index of the first occurrence of the character, counting from the given offset\<close>
  "indexOfFrom [] c k = -1"
| "indexOfFrom (x # xs) c k = (if x = c then int k else indexOfFrom xs c (Suc k))"

definition indexOf :: "string \<Rightarrow> char \<Rightarrow> int \<Rightarrow> int" where
  \<comment> \<open>\<^verbatim>\<open>s.indexOf(c, from)\<close>, the start clamped to \<^verbatim>\<open>[0, s.length]\<close>\<close>
  "indexOf s c from' =
     (let k = nat (min (max from' 0) (int (length s))) in indexOfFrom (drop k s) c k)"

fun collapseRuns :: "bool \<Rightarrow> string \<Rightarrow> string" where
  \<comment> \<open>the flag says that the previous character was white space\<close>
  "collapseRuns inRun [] = []"
| "collapseRuns inRun (c # cs) =
     (if isWhiteSpace c then (if inRun then [] else [CHR '' '']) @ collapseRuns True cs
      else c # collapseRuns False cs)"

definition collapseWhiteSpace :: "string \<Rightarrow> string" where
  \<comment> \<open>\<^verbatim>\<open>s.replace(/\s+/g, " ")\<close>\<close>
  "collapseWhiteSpace s = collapseRuns False s"

definition normalizeSlashes :: "string \<Rightarrow> string" where
  \<comment> \<open>\<^verbatim>\<open>s.replace(/\\/g, "/")\<close>\<close>
  "normalizeSlashes s = map (\<lambda>c. if c = CHR 0x5C then CHR ''/'' else c) s"

fun digitsOf :: "nat \<Rightarrow> string" where
  "digitsOf n = (if n < 10 then [char_of (48 + n)] else digitsOf (n div 10) @ [char_of (48 + n mod 10)])"

declare digitsOf.simps [simp del]

definition showInt :: "int \<Rightarrow> string" where
  \<comment> \<open>an integer in a template literal\<close>
  "showInt i = (if i < 0 then CHR ''-'' # digitsOf (nat (- i)) else digitsOf (nat i))"

fun insertBy :: "('a \<Rightarrow> 'a \<Rightarrow> real) \<Rightarrow> 'a \<Rightarrow> 'a list \<Rightarrow> 'a list" where
  "insertBy cmp x [] = [x]"
| "insertBy cmp x (y # ys) = (if cmp x y \<le> 0 then x # y # ys else y # insertBy cmp x ys)"

definition sortBy :: "('a \<Rightarrow> 'a \<Rightarrow> real) \<Rightarrow> 'a list \<Rightarrow> 'a list" where
  \<comment> \<open>\<^verbatim>\<open>xs.sort(cmp)\<close>: the stable sort, elements that compare equal keep their order\<close>
  "sortBy cmp xs = foldr (insertBy cmp) xs []"

section \<open>Double precision numbers\<close>

text \<open>
  The weights and similarities of the semantic graph are IEEE 754 double precision numbers.
  A finite double is modelled as the real number it denotes, and every arithmetic operation
  as the exact operation followed by \<open>roundToDouble\<close>: rounding to the nearest number with a
  significand of 53 bits, ties to the even significand. \<^verbatim>\<open>Math.sqrt\<close> and \<^verbatim>\<open>Math.log\<close> are
  taken as correctly rounded; of \<^verbatim>\<open>Math.log\<close> the results for all corpora use only that the
  logarithm of 1 is 0 and that the logarithm of a double above 1 is positive, and the corpus
  that is evaluated uses its value at 1.5. The exponent is not bounded: overflow and underflow would need
  a term count or a number of documents far beyond what a string or a \<^verbatim>\<open>Map\<close> can hold, and
  no operation of the graph builder produces \<^verbatim>\<open>NaN\<close> (each division has a divisor that is
  not zero).
\<close>

definition roundHalfEven :: "real \<Rightarrow> int" where
  \<comment> \<open>the nearest integer, the even one of two that are equally near\<close>
  "roundHalfEven y =
     (let n = \<lfloor>y\<rfloor>; r = y - of_int n
      in if r < 1/2 then n else if r > 1/2 then n + 1 else if even n then n else n + 1)"

definition roundToDouble :: "real \<Rightarrow> real" where
  \<comment> \<open>with \<open>2 ^ e \<le> |x| < 2 ^ (e + 1)\<close> the doubles around \<open>x\<close> are the multiples of
      \<open>2 ^ (e - 52)\<close>\<close>
  "roundToDouble x =
     (if x = 0 then 0
      else (let e = \<lfloor>log 2 \<bar>x\<bar>\<rfloor>; q = 2 powr (of_int e - 52)
            in of_int (roundHalfEven (x / q)) * q))"

definition dadd :: "real \<Rightarrow> real \<Rightarrow> real" where
  "dadd x y = roundToDouble (x + y)"

definition dsub :: "real \<Rightarrow> real \<Rightarrow> real" where
  "dsub x y = roundToDouble (x - y)"

definition dmul :: "real \<Rightarrow> real \<Rightarrow> real" where
  "dmul x y = roundToDouble (x * y)"

definition ddiv :: "real \<Rightarrow> real \<Rightarrow> real" where
  "ddiv x y = roundToDouble (x / y)"

definition Math_sqrt :: "real \<Rightarrow> real" where
  "Math_sqrt x = roundToDouble (sqrt x)"

definition Math_log :: "real \<Rightarrow> real" where
  "Math_log x = roundToDouble (ln x)"

section \<open>The semantic graph (semanticLinker.ts)\<close>

definition STOP_WORDS :: "string list" where
  "STOP_WORDS = [
    ''a'', ''about'', ''above'', ''after'', ''again'', ''against'', ''all'', ''am'',
    ''an'', ''and'', ''any'', ''are'', ''aren't'', ''as'', ''at'', ''be'',
    ''because'', ''been'', ''before'', ''being'', ''below'', ''between'', ''both'', ''but'',
    ''by'', ''can't'', ''cannot'', ''could'', ''couldn't'', ''did'', ''didn't'', ''do'',
    ''does'', ''doesn't'', ''doing'', ''don't'', ''down'', ''during'', ''each'', ''few'',
    ''for'', ''from'', ''further'', ''had'', ''hadn't'', ''has'', ''hasn't'', ''have'',
    ''haven't'', ''having'', ''he'', ''he'd'', ''he'll'', ''he's'', ''her'', ''here'',
    ''here's'', ''hers'', ''herself'', ''him'', ''himself'', ''his'', ''how'', ''how's'',
    ''i'', ''i'd'', ''i'll'', ''i'm'', ''i've'', ''if'', ''in'', ''into'',
    ''is'', ''isn't'', ''it'', ''it's'', ''its'', ''itself'', ''let's'', ''me'',
    ''more'', ''most'', ''mustn't'', ''my'', ''myself'', ''no'', ''nor'', ''not'',
    ''of'', ''off'', ''on'', ''once'', ''only'', ''or'', ''other'', ''ought'',
    ''our'', ''ours'', ''ourselves'', ''out'', ''over'', ''own'', ''same'', ''shan't'',
    ''she'', ''she'd'', ''she'll'', ''she's'', ''should'', ''shouldn't'', ''so'', ''some'',
    ''such'', ''than'', ''that'', ''that's'', ''the'', ''their'', ''theirs'', ''them'',
    ''themselves'', ''then'', ''there'', ''there's'', ''these'', ''they'', ''they'd'', ''they'll'',
    ''they're'', ''they've'', ''this'', ''those'', ''through'', ''to'', ''too'', ''under'',
    ''until'', ''up'', ''very'', ''was'', ''wasn't'', ''we'', ''we'd'', ''we'll'',
    ''we're'', ''we've'', ''were'', ''weren't'', ''what'', ''what's'', ''when'', ''when's'',
    ''where'', ''where's'', ''which'', ''while'', ''who'', ''who's'', ''whom'', ''why'',
    ''why's'', ''with'', ''won't'', ''would'', ''wouldn't'', ''you'', ''you'd'', ''you'll'',
    ''you're'', ''you've'', ''your'', ''yours'', ''yourself'', ''yourselves'', ''file'', ''code'',
    ''function'', ''class'', ''method'', ''variable'', ''parameter'', ''return'', ''import'', ''export'',
    ''const'', ''let'', ''var'', ''interface'', ''type'', ''public'', ''private'', ''protected'',
    ''static'', ''async'', ''await'', ''new'', ''this'', ''super'', ''extends'', ''implements'',
    ''from'', ''module''
  ]"

record SemanticLink =
  relatedPath :: string
  score :: real

type_synonym SemanticGraph = "(string \<times> SemanticLink list) list"

definition calculateCosineSimilarity ::
  "(string \<times> real) list \<Rightarrow> (string \<times> real) list \<Rightarrow> real" where
  "calculateCosineSimilarity vectorA vectorB =
     (let termsA = jsSetOf (map fst vectorA);
          termsB = jsSetOf (map fst vectorB);
          allTerms = jsSetOf (termsA @ termsB);
          (dotProduct, magnitudeA, magnitudeB) =
             fold (\<lambda>term (d, ma, mb).
                     let scoreA = (case map_of vectorA term of None \<Rightarrow> 0 | Some x \<Rightarrow> x);
                         scoreB = (case map_of vectorB term of None \<Rightarrow> 0 | Some x \<Rightarrow> x)
                     in (dadd d (dmul scoreA scoreB), dadd ma (dmul scoreA scoreA),
                         dadd mb (dmul scoreB scoreB)))
                  allTerms (0, 0, 0)
      in if magnitudeA = 0 \<or> magnitudeB = 0 then 0
         else ddiv dotProduct (dmul (Math_sqrt magnitudeA) (Math_sqrt magnitudeB)))"

definition countToken :: "(string \<times> nat) list \<Rightarrow> string \<Rightarrow> (string \<times> nat) list" where
  "countToken termFrequencies token =
     (if token \<notin> set STOP_WORDS \<and> length token > 1
      then AList.update token
             ((case map_of termFrequencies token of None \<Rightarrow> 0 | Some n \<Rightarrow> n) + 1) termFrequencies
      else termFrequencies)"

definition termFrequenciesOf :: "string \<Rightarrow> (string \<times> nat) list" where
  "termFrequenciesOf summary =
     (let tokens = map toLowerCase (matchWords [] summary)
      in fold (\<lambda>token tf. countToken tf token) tokens [])"

definition countDocument :: "(string \<times> nat) list \<Rightarrow> string \<Rightarrow> (string \<times> nat) list" where
  "countDocument dfMap token =
     AList.update token ((case map_of dfMap token of None \<Rightarrow> 0 | Some n \<Rightarrow> n) + 1) dfMap"

definition tfdfStep ::
  "(string \<times> string) list \<Rightarrow> string \<Rightarrow>
   (string \<times> (string \<times> nat) list) list \<times> (string \<times> nat) list \<Rightarrow>
   (string \<times> (string \<times> nat) list) list \<times> (string \<times> nat) list" where
  \<comment> \<open>one pass of loop 1: the term frequencies of a file, and its terms counted once each\<close>
  "tfdfStep fileSummaries filePath st =
     (let summary = (case map_of fileSummaries filePath of None \<Rightarrow> [] | Some s \<Rightarrow> s);
          termFrequencies = termFrequenciesOf summary;
          uniqueTokens = jsSetOf (map fst termFrequencies)
      in (AList.update filePath termFrequencies (fst st),
          fold (\<lambda>token df. countDocument df token) uniqueTokens (snd st)))"

definition tfidfVectorOf ::
  "nat \<Rightarrow> (string \<times> nat) list \<Rightarrow> (string \<times> nat) list \<Rightarrow> (string \<times> real) list" where
  "tfidfVectorOf totalDocs dfMap termFrequencies =
     fold (\<lambda>(term, tf) tfidfVector.
             let df = (case map_of dfMap term of None \<Rightarrow> 1 | Some d \<Rightarrow> if d = 0 then 1 else d);
                 idf = Math_log (ddiv (real totalDocs) (real df));
                 tfidf = dmul (real tf) idf
             in AList.update term tfidf tfidfVector)
          termFrequencies []"

definition tfidfStep ::
  "nat \<Rightarrow> (string \<times> (string \<times> nat) list) list \<Rightarrow> (string \<times> nat) list \<Rightarrow> string \<Rightarrow>
   (string \<times> (string \<times> real) list) list \<Rightarrow> (string \<times> (string \<times> real) list) list" where
  \<comment> \<open>one pass of loop 2\<close>
  "tfidfStep totalDocs tfMaps dfMap filePath tfidfVectors =
     (case map_of tfMaps filePath of
        None \<Rightarrow> tfidfVectors
      | Some termFrequencies \<Rightarrow>
          AList.update filePath (tfidfVectorOf totalDocs dfMap termFrequencies) tfidfVectors)"

definition pushLink :: "SemanticGraph \<Rightarrow> string \<Rightarrow> SemanticLink \<Rightarrow> SemanticGraph" where
  \<comment> \<open>\<^verbatim>\<open>if (!g.has(p)) g.set(p, []); g.get(p)!.push(l)\<close>\<close>
  "pushLink semanticGraph path link =
     (let g = (if map_of semanticGraph path = None then AList.update path [] semanticGraph
               else semanticGraph)
      in AList.update path ((case map_of g path of None \<Rightarrow> [] | Some ls \<Rightarrow> ls) @ [link]) g)"

definition linkStep ::
  "(string \<times> (string \<times> real) list) list \<Rightarrow> string \<Rightarrow> string \<Rightarrow> SemanticGraph \<Rightarrow> SemanticGraph" where
  \<comment> \<open>the body of the inner loop of loop 3; the literal \<^verbatim>\<open>0.01\<close> denotes the nearest double\<close>
  "linkStep tfidfVectors pathA pathB semanticGraph =
     (case map_of tfidfVectors pathA of
        None \<Rightarrow> semanticGraph
      | Some vectorA \<Rightarrow>
          (case map_of tfidfVectors pathB of
             None \<Rightarrow> semanticGraph
           | Some vectorB \<Rightarrow>
               (let similarity = calculateCosineSimilarity vectorA vectorB
                in if similarity > roundToDouble 0.01
                   then pushLink
                          (pushLink semanticGraph pathA \<lparr>relatedPath = pathB, score = similarity\<rparr>)
                          pathB \<lparr>relatedPath = pathA, score = similarity\<rparr>
                   else semanticGraph)))"

definition linkAll ::
  "(string \<times> (string \<times> real) list) list \<Rightarrow> string list \<Rightarrow> SemanticGraph" where
  \<comment> \<open>loop 3: \<^verbatim>\<open>for i in 0..n-1, for j in i+1..n-1\<close>\<close>
  "linkAll tfidfVectors filePaths =
     fold (\<lambda>i g. fold (\<lambda>j g'. linkStep tfidfVectors (filePaths ! i) (filePaths ! j) g')
                    [i + 1 ..< length filePaths] g)
          [0 ..< length filePaths] []"

definition sortLinks :: "SemanticGraph \<Rightarrow> SemanticGraph" where
  \<comment> \<open>\<^verbatim>\<open>links.sort((a, b) => b.score - a.score)\<close> on every value of the map\<close>
  "sortLinks semanticGraph =
     map (\<lambda>(p, links). (p, sortBy (\<lambda>a b. dsub (score b) (score a)) links)) semanticGraph"

definition tfdfMaps ::
  "(string \<times> string) list \<Rightarrow> (string \<times> (string \<times> nat) list) list \<times> (string \<times> nat) list" where
  "tfdfMaps fileSummaries = fold (tfdfStep fileSummaries) (map fst fileSummaries) ([], [])"

definition tfidfVectorsOf :: "(string \<times> string) list \<Rightarrow> (string \<times> (string \<times> real) list) list" where
  "tfidfVectorsOf fileSummaries =
     (let filePaths = map fst fileSummaries;
          totalDocs = length filePaths;
          (tfMaps, dfMap) = tfdfMaps fileSummaries
      in fold (tfidfStep totalDocs tfMaps dfMap) filePaths [])"

definition buildSemanticGraph :: "(string \<times> string) list \<Rightarrow> SemanticGraph" where
  "buildSemanticGraph fileSummaries =
     (let filePaths = map fst fileSummaries
      in if length filePaths < 2 then []
         else sortLinks (linkAll (tfidfVectorsOf fileSummaries) filePaths))"

section \<open>Positions, ranges and symbols of the editor API\<close>

text \<open>
  \<^verbatim>\<open>vscode.Position\<close>, \<^verbatim>\<open>vscode.Range\<close> and \<^verbatim>\<open>vscode.DocumentSymbol\<close> belong to the editor,
  not to the program; the operations the program calls are modelled after their documented
  behaviour. Positions are ordered by line, then by character. The constructors reject negative
  numbers; every constructor call of the program passes numbers that are not negative.
\<close>

record Position =
  line :: int
  character :: int

record Range =
  start :: Position
  end' :: Position

definition isBefore :: "Position \<Rightarrow> Position \<Rightarrow> bool" where
  "isBefore a b = (line a < line b \<or> (line a = line b \<and> character a < character b))"

definition isAfter :: "Position \<Rightarrow> Position \<Rightarrow> bool" where
  "isAfter a b = isBefore b a"

definition mkPosition :: "int \<Rightarrow> int \<Rightarrow> Position" where
  "mkPosition l c = \<lparr>line = l, character = c\<rparr>"

definition mkRange :: "Position \<Rightarrow> Position \<Rightarrow> Range" where
  \<comment> \<open>\<^verbatim>\<open>new vscode.Range(start, end)\<close> puts the earlier position first\<close>
  "mkRange s e = (if isBefore s e then \<lparr>start = s, end' = e\<rparr> else \<lparr>start = e, end' = s\<rparr>)"

definition mkRange4 :: "int \<Rightarrow> int \<Rightarrow> int \<Rightarrow> int \<Rightarrow> Range" where
  \<comment> \<open>\<^verbatim>\<open>new vscode.Range(startLine, startCharacter, endLine, endCharacter)\<close>\<close>
  "mkRange4 sl sc el ec = mkRange (mkPosition sl sc) (mkPosition el ec)"

definition isEmpty :: "Range \<Rightarrow> bool" where
  "isEmpty r = (start r = end' r)"

definition contains :: "Range \<Rightarrow> Position \<Rightarrow> bool" where
  \<comment> \<open>\<^verbatim>\<open>range.contains(position)\<close>: both ends inclusive\<close>
  "contains r p = (\<not> isBefore p (start r) \<and> \<not> isBefore (end' r) p)"

definition intersection :: "Range \<Rightarrow> Range \<Rightarrow> Range option" where
  \<comment> \<open>\<^verbatim>\<open>this.intersection(other)\<close>: the later start and the earlier end, nothing when
      they do not meet\<close>
  "intersection this other =
     (let s = (if isAfter (start this) (start other) then start this else start other);
          e = (if isBefore (end' this) (end' other) then end' this else end' other)
      in if isAfter s e then None else Some (mkRange s e))"

datatype SymbolKind =
    File | Module | Namespace | Package | Class | Method | Property | Field'
  | Constructor | Enum | Interface | Function | Variable | Constant | String' | Number
  | Boolean | Array | Object | Key | Null | EnumMember | Struct | Event | Operator
  | TypeParameter

definition kindName :: "SymbolKind \<Rightarrow> string" where
  \<comment> \<open>\<^verbatim>\<open>vscode.SymbolKind[kind]\<close>, the reverse mapping of the enumeration\<close>
  "kindName k = (case k of
      File \<Rightarrow> ''File'' | Module \<Rightarrow> ''Module'' | Namespace \<Rightarrow> ''Namespace'' | Package \<Rightarrow> ''Package''
    | Class \<Rightarrow> ''Class'' | Method \<Rightarrow> ''Method'' | Property \<Rightarrow> ''Property'' | Field' \<Rightarrow> ''Field''
    | Constructor \<Rightarrow> ''Constructor'' | Enum \<Rightarrow> ''Enum'' | Interface \<Rightarrow> ''Interface''
    | Function \<Rightarrow> ''Function'' | Variable \<Rightarrow> ''Variable'' | Constant \<Rightarrow> ''Constant''
    | String' \<Rightarrow> ''String'' | Number \<Rightarrow> ''Number'' | Boolean \<Rightarrow> ''Boolean'' | Array \<Rightarrow> ''Array''
    | Object \<Rightarrow> ''Object'' | Key \<Rightarrow> ''Key'' | Null \<Rightarrow> ''Null'' | EnumMember \<Rightarrow> ''EnumMember''
    | Struct \<Rightarrow> ''Struct'' | Event \<Rightarrow> ''Event'' | Operator \<Rightarrow> ''Operator''
    | TypeParameter \<Rightarrow> ''TypeParameter'')"

datatype DocumentSymbol =
  DocumentSymbol (name: string) (detail: string) (kind: SymbolKind) (range': Range)
    (selectionRange: Range) (children: "DocumentSymbol list")

definition allSymbolKinds :: "SymbolKind list" where
  \<comment> \<open>the members of the enumeration in the order of their values, from 0 to 25\<close>
  "allSymbolKinds =
     [File, Module, Namespace, Package, Class, Method, Property, Field', Constructor, Enum,
      Interface, Function, Variable, Constant, String', Number, Boolean, Array, Object, Key,
      Null, EnumMember, Struct, Event, Operator, TypeParameter]"

datatype EnumKey = ByValue SymbolKind | ByName string

definition symbolKindEntry :: "EnumKey \<Rightarrow> string" where
  \<comment> \<open>\<^verbatim>\<open>(vscode.SymbolKind as any)[key]\<close> as it prints in a template literal: the object of
      a numeric enumeration has a property for each name, holding the value, and a property
      for the decimal text of each value, holding the name\<close>
  "symbolKindEntry key =
     (let entries = zip allSymbolKinds [0 ..< 26]
      in case key of
           ByValue k \<Rightarrow> kindName k
         | ByName s \<Rightarrow>
             (case find (\<lambda>(k, v). kindName k = s) entries of
                Some (k, v) \<Rightarrow> showInt (int v)
              | None \<Rightarrow>
                  (case find (\<lambda>(k, v). showInt (int v) = s) entries of
                     Some (k, v) \<Rightarrow> kindName k
                   | None \<Rightarrow> ''undefined'')))"

datatype error = TypeError

section \<open>Range extraction (codeAnalysisUtils.ts)\<close>

definition extractContentForRange :: "string \<Rightarrow> Range \<Rightarrow> string" where
  "extractContentForRange fullContent rng =
     (let lines = splitLines fullContent;
          startLine = line (start rng);
          endLine = line (end' rng)
      in if startLine < 0 \<or> endLine \<ge> int (length lines) \<or> startLine > endLine then []
         else joinWith [CHR 0x0A]
                (map (\<lambda>i. let l = lines ! nat i
                           in if i = startLine \<and> i = endLine
                              then substring l (character (start rng)) (character (end' rng))
                              else if i = startLine then substringFrom l (character (start rng))
                              else if i = endLine then substring l 0 (character (end' rng))
                              else l)
                     [startLine .. endLine]))"

definition isBlockKind :: "SymbolKind \<Rightarrow> bool" where
  "isBlockKind k = (k \<in> set [Class, Function, Method, Constructor, Module, Namespace, Enum])"

fun findBrace :: "string list \<Rightarrow> Position \<Rightarrow> int list \<Rightarrow> error + Position option" where
  \<comment> \<open>the search loop of \<^verbatim>\<open>getDeclarationRange\<close> over the line numbers still to visit; a line
      number outside the file makes \<^verbatim>\<open>line.indexOf\<close> a call on \<^verbatim>\<open>undefined\<close>\<close>
  "findBrace lines st [] = Inr None"
| "findBrace lines st (i # rest) =
     (if i < 0 \<or> int (length lines) \<le> i then Inl TypeError
      else (let searchStartChar = (if i = line st then character st else 0);
                braceIndex = indexOf (lines ! nat i) CHR ''{'' searchStartChar
            in if braceIndex \<noteq> - 1 then Inr (Some (mkPosition i braceIndex))
               else findBrace lines st rest))"

definition getDeclarationRange :: "string \<Rightarrow> DocumentSymbol \<Rightarrow> error + Range" where
  "getDeclarationRange fullContent symbol =
     (let lines = splitLines fullContent;
          startLine = line (start (range' symbol));
          endLine = line (end' (range' symbol));
          fallback = (if kind symbol = Interface \<or> kind symbol = TypeParameter \<or> isBlockKind (kind symbol)
                      then selectionRange symbol else range' symbol)
      in if isBlockKind (kind symbol)
         then (case findBrace lines (start (range' symbol)) [startLine .. endLine] of
                 Inl e \<Rightarrow> Inl e
               | Inr (Some brace) \<Rightarrow> Inr (mkRange (start (range' symbol)) brace)
               | Inr None \<Rightarrow> Inr fallback)
         else Inr fallback)"

definition isDocLine :: "string \<Rightarrow> bool" where
  "isDocLine trimmed = (startsWith trimmed ''//'' \<or> startsWith trimmed ''/*'' \<or> startsWith trimmed ''*'')"

function skipBlankLinesUp :: "string list \<Rightarrow> int \<Rightarrow> error + int" where
  \<comment> \<open>step 1 of \<^verbatim>\<open>getDocumentationRange\<close>; beyond the last line \<^verbatim>\<open>lines[currentLine]\<close> is
      \<^verbatim>\<open>undefined\<close> and \<^verbatim>\<open>.trim()\<close> throws\<close>
  "skipBlankLinesUp lines currentLine =
     (if currentLine < 0 then Inr currentLine
      else if int (length lines) \<le> currentLine then Inl TypeError
      else if trim (lines ! nat currentLine) = [] then skipBlankLinesUp lines (currentLine - 1)
      else Inr currentLine)"
  by pat_completeness auto
termination
  by (relation "measure (\<lambda>(lines, currentLine). nat (currentLine + 1))") auto

declare skipBlankLinesUp.simps [simp del]

function docBlockStart :: "string list \<Rightarrow> int \<Rightarrow> int \<Rightarrow> int" where
  \<comment> \<open>step 2: the loop \<^verbatim>\<open>for (i = endDocLine; i >= 0; i--)\<close> from line \<open>i\<close> with the current
      \<^verbatim>\<open>startDocLine\<close>; it is entered with \<open>0 \<le> i < length lines\<close>\<close>
  "docBlockStart lines i startDocLine =
     (if i < 0 then startDocLine
      else (let trimmed = trim (lines ! nat i)
            in if trimmed = []
               then (if startDocLine \<noteq> - 1 then docBlockStart lines (i - 1) startDocLine
                     else startDocLine)
               else if isDocLine trimmed
               then (if startsWith trimmed ''//'' \<and> i > 0 \<and>
                        (let prevTrimmed = trim (lines ! nat (i - 1))
                         in prevTrimmed \<noteq> [] \<and> \<not> isDocLine prevTrimmed)
                     then i
                     else if i = 0 then i
                     else docBlockStart lines (i - 1) i)
               else i + 1))"
  by pat_completeness auto
termination
  by (relation "measure (\<lambda>(lines, i, startDocLine). nat (i + 1))") auto

declare docBlockStart.simps [simp del]

function skipBlankLinesDown :: "string list \<Rightarrow> int \<Rightarrow> int \<Rightarrow> int" where
  \<comment> \<open>step 3: the first line of the block that is not blank\<close>
  "skipBlankLinesDown lines endDocLine finalStartLine =
     (if finalStartLine < endDocLine \<and> trim (lines ! nat finalStartLine) = []
      then skipBlankLinesDown lines endDocLine (finalStartLine + 1)
      else finalStartLine)"
  by pat_completeness auto
termination
  by (relation "measure (\<lambda>(lines, endDocLine, finalStartLine). nat (endDocLine - finalStartLine))") auto

declare skipBlankLinesDown.simps [simp del]

definition getDocumentationRange :: "string \<Rightarrow> DocumentSymbol \<Rightarrow> error + Range option" where
  "getDocumentationRange fullContent symbol =
     (let lines = splitLines fullContent
      in case skipBlankLinesUp lines (line (start (range' symbol)) - 1) of
           Inl e \<Rightarrow> Inl e
         | Inr currentLine \<Rightarrow>
             if currentLine < 0 then Inr None
             else (let endDocLine = currentLine;
                       startDocLine = docBlockStart lines endDocLine (- 1)
                   in if startDocLine = - 1 \<or> startDocLine > endDocLine then Inr None
                      else (let finalStartLine = skipBlankLinesDown lines endDocLine startDocLine
                            in if finalStartLine > endDocLine then Inr None
                               else Inr (Some (mkRange4 finalStartLine 0 endDocLine
                                                 (int (length (lines ! nat endDocLine))))))))"

fun childLines :: "string \<Rightarrow> DocumentSymbol list \<Rightarrow> error + string list" where
  \<comment> \<open>the loop over \<^verbatim>\<open>symbol.children\<close> in \<^verbatim>\<open>formatSymbolStructure\<close>\<close>
  "childLines fullContent [] = Inr []"
| "childLines fullContent (child # rest) =
     (if kind child = Property \<or> kind child = Method \<or> kind child = Field' \<or> kind child = Event
      then (case getDeclarationRange fullContent child of
              Inl e \<Rightarrow> Inl e
            | Inr childDeclarationRange \<Rightarrow>
                (let childContent = extractContentForRange fullContent childDeclarationRange;
                     contentLine = collapseWhiteSpace (trim (hd (splitLines childContent)));
                     detail' = (if detail child \<noteq> [] then '' ('' @ detail child @ '')'' else [])
                 in (case childLines fullContent rest of
                       Inl e \<Rightarrow> Inl e
                     | Inr childrenList \<Rightarrow> Inr ((''  - '' @ contentLine @ detail') # childrenList))))
      else childLines fullContent rest)"

definition formatSymbolStructure :: "DocumentSymbol \<Rightarrow> string \<Rightarrow> error + string option" where
  "formatSymbolStructure symbol fullContent =
     (if kind symbol \<noteq> Interface \<and> kind symbol \<noteq> TypeParameter then Inr None
      else (case getDeclarationRange fullContent symbol of
              Inl e \<Rightarrow> Inl e
            | Inr declarationRange \<Rightarrow>
                (let structure0 = trim (extractContentForRange fullContent declarationRange);
                     structure = (if endsWith structure0 ''{''
                                  then trim (substring structure0 0 (int (length structure0) - 1))
                                  else structure0);
                     formattedParts = [''// '' @ kindName (kind symbol) @ '': '' @ name symbol, structure]
                 in (case childLines fullContent (children symbol) of
                       Inl e \<Rightarrow> Inl e
                     | Inr childrenList \<Rightarrow>
                         Inr (Some (joinWith [CHR 0x0A]
                            (formattedParts @
                             (if childrenList \<noteq> [] then [''{''] @ childrenList @ [''}''] else []))))))))"

section \<open>The budgeted summary (semanticLinker.ts)\<close>

text \<open>
  The priorities and the products \<^verbatim>\<open>candidateLineCount * 0.7\<close>,
  \<^verbatim>\<open>maxAllowedLength * 0.15\<close> and \<^verbatim>\<open>maxAllowedLength * 0.2\<close> are taken exactly: they are only
  compared with an integer or cut to their integer part, and for a line count or a budget
  that gives what the doubles give. The three phases of
  \<^verbatim>\<open>intelligentlySummarizeFileContent\<close> are separate functions here: \<open>collectCandidates\<close>
  builds the candidate list, \<open>packCandidates\<close> runs the candidate loop and the fallback loop
  on the state of the closure (\<^verbatim>\<open>currentLength\<close>, \<^verbatim>\<open>collectedParts\<close>,
  \<^verbatim>\<open>includedRanges\<close>), and \<open>assemble\<close> is the final assembly.
\<close>

record CallHierarchyItem =
  itemName :: string
  uriFsPath :: string
  itemRange :: Range

record IncomingCall =
  callFrom :: CallHierarchyItem
  fromRanges :: "Range list"

record OutgoingCall =
  callTo :: CallHierarchyItem

text \<open>
  The declaration of \<^verbatim>\<open>ActiveSymbolDetailedInfo\<close> is imported from another module. The fields
  below are the ones the summary reads; those it reads through \<^verbatim>\<open>?.\<close> or tests for
  \<^verbatim>\<open>undefined\<close> are optional. The kind is only used as an index into the enumeration object,
  so it may be a value of the enumeration or a name.
\<close>

record ActiveSymbolDetailedInfo =
  activeName :: string
  activeKind :: "EnumKey option"
  fullRange :: "Range option"
  filePath :: "string option"
  incomingCalls :: "IncomingCall list option"
  outgoingCalls :: "OutgoingCall list option"

definition MAJOR_SYMBOL_KINDS :: "SymbolKind list" where
  "MAJOR_SYMBOL_KINDS =
     [Class, Function, Method, Interface, Enum, Namespace, Constructor, Module, Variable,
      Constant, TypeParameter, Property, Field']"

definition EXPORTED_SYMBOL_KINDS :: "SymbolKind list" where
  "EXPORTED_SYMBOL_KINDS = [Class, Function, Interface, Enum, Variable, Constant]"

definition MARKERS_DOC :: string where "MARKERS_DOC = ''DOC''"
definition MARKERS_STRUCT :: string where "MARKERS_STRUCT = ''STRUCT''"
definition MARKERS_SIGNATURE :: string where "MARKERS_SIGNATURE = ''SIGNATURE''"
definition MARKERS_ACTIVE_SYMBOL :: string where "MARKERS_ACTIVE_SYMBOL = ''ACTIVE_SYMBOL''"
definition MARKERS_IMPORTS :: string where "MARKERS_IMPORTS = ''IMPORTS''"
definition MARKERS_PREAMBLE :: string where "MARKERS_PREAMBLE = ''PREAMBLE''"
definition MARKERS_CONTEXT :: string where "MARKERS_CONTEXT = ''CONTEXT''"
definition MARKERS_END_SECTION :: string where "MARKERS_END_SECTION = ''END_SECTION''"

record SummaryState =
  currentLength :: int
  collectedParts :: "(string \<times> int) list"
  includedRanges :: "Range list"

definition overlapsSubstantially :: "Range \<Rightarrow> Range \<Rightarrow> bool" where
  \<comment> \<open>the test of one already included range in the loop of \<^verbatim>\<open>isSubstantiallyOverlapping\<close>\<close>
  "overlapsSubstantially candidateRange existingRange =
     (let candidateLineCount = line (end' candidateRange) - line (start candidateRange) + 1
      in case intersection existingRange candidateRange of
           None \<Rightarrow> False
         | Some isect \<Rightarrow>
             \<not> isEmpty isect \<and>
             (let intersectionLineCount = line (end' isect) - line (start isect) + 1
              in real_of_int intersectionLineCount \<ge> real_of_int candidateLineCount * 0.7))"

definition isSubstantiallyOverlapping :: "Range list \<Rightarrow> Range \<Rightarrow> bool" where
  "isSubstantiallyOverlapping included candidateRange =
     (let candidateLineCount = line (end' candidateRange) - line (start candidateRange) + 1
      in if candidateLineCount \<le> 0 then False
         else list_ex (overlapsSubstantially candidateRange) included)"

definition addContentBlock ::
  "int \<Rightarrow> SummaryState \<Rightarrow> string \<Rightarrow> Range \<Rightarrow> string \<Rightarrow> string \<Rightarrow> int option
   \<Rightarrow> bool \<times> SummaryState" where
  "addContentBlock maxAllowedLength st contentRaw sourceRange markerType description desiredBlockLength =
     (if currentLength st \<ge> maxAllowedLength then (False, st)
      else if isSubstantiallyOverlapping (includedRanges st) sourceRange then (False, st)
      else
        (let headerContent = (if description \<noteq> [] then '': '' @ description else []);
             headerPart = ''// ['' @ markerType @ headerContent @ '']'' @ [CHR 0x0A];
             footerPart = [CHR 0x0A] @ ''// ['' @ MARKERS_END_SECTION @ '': '' @ markerType @ '']'';
             contentToUse =
               (case desiredBlockLength of
                  None \<Rightarrow> contentRaw
                | Some d \<Rightarrow> if int (length contentRaw) > d then substring contentRaw 0 d else contentRaw);
             combinedLength = int (length headerPart) + int (length contentToUse) + int (length footerPart);
             remainingSpace = maxAllowedLength - currentLength st;
             truncationMessage = [CHR 0x0A] @ ''// ... (section truncated)'';
             availableContentLength = remainingSpace - int (length headerPart) - int (length footerPart)
         in if combinedLength > remainingSpace \<and> \<not> availableContentLength > 30 then (False, st)
            else
              (let combinedContent =
                     (if combinedLength > remainingSpace
                      then substring contentToUse 0 (availableContentLength - int (length truncationMessage))
                           @ truncationMessage
                      else contentToUse);
                   finalBlock = headerPart @ combinedContent @ footerPart
               in if length finalBlock > 0
                  then (True,
                        st\<lparr>collectedParts := collectedParts st @ [(finalBlock, line (start sourceRange))],
                           currentLength := currentLength st + int (length finalBlock),
                           includedRanges := includedRanges st @ [sourceRange]\<rparr>)
                  else (False, st))))"

record ContentCandidate =
  priority :: real
  candidateRange :: Range
  marker :: string
  description :: string
  contentOverride :: "string option"
  desiredBlockLength :: "int option"

definition isLocationInCurrentFile :: "CallHierarchyItem \<Rightarrow> string \<Rightarrow> bool" where
  "isLocationInCurrentFile location currentFilePath =
     (if currentFilePath = [] then False
      else normalizeSlashes (uriFsPath location) = normalizeSlashes currentFilePath)"

definition activeSymbolCandidates :: "ActiveSymbolDetailedInfo option \<Rightarrow> ContentCandidate list" where
  \<comment> \<open>1. the active symbol's full definition\<close>
  "activeSymbolCandidates activeSymbolDetailedInfo =
     (case activeSymbolDetailedInfo of
        None \<Rightarrow> []
      | Some info \<Rightarrow>
          (case fullRange info of
             None \<Rightarrow> []
           | Some r \<Rightarrow>
               (let kindName' = (case activeKind info of Some k \<Rightarrow> symbolKindEntry k | None \<Rightarrow> ''Unknown'')
                in [\<lparr>priority = 5, candidateRange = r, marker = MARKERS_ACTIVE_SYMBOL,
                     description = activeName info @ '' ('' @ kindName' @ '')'',
                     contentOverride = None, desiredBlockLength = None\<rparr>])))"

definition isPreambleLine :: "string \<Rightarrow> bool" where
  "isPreambleLine l =
     (let line' = trim l
      in startsWith line' ''//'' \<or> startsWith line' ''/*'' \<or> startsWith line' ''*'' \<or>
         startsWith line' ''#'' \<or> line' = [])"

definition preambleEndLineOf :: "string list \<Rightarrow> int" where
  \<comment> \<open>the last of the leading comment or blank lines among the first 20, or \<open>-1\<close>\<close>
  "preambleEndLineOf fileLines = int (length (takeWhile isPreambleLine (take 20 fileLines))) - 1"

definition lineLengthAt :: "string list \<Rightarrow> int \<Rightarrow> int" where
  \<comment> \<open>\<^verbatim>\<open>fileLines[i]?.length || 0\<close>\<close>
  "lineLengthAt fileLines i =
     (if 0 \<le> i \<and> i < int (length fileLines) then int (length (fileLines ! nat i)) else 0)"

definition preambleCandidates :: "string list \<Rightarrow> int \<Rightarrow> ContentCandidate list" where
  \<comment> \<open>2. the file preamble\<close>
  "preambleCandidates fileLines maxAllowedLength =
     (let preambleEndLine = preambleEndLineOf fileLines
      in if preambleEndLine \<ge> 0
         then [\<lparr>priority = 4.5,
                candidateRange = mkRange4 0 0 preambleEndLine (lineLengthAt fileLines preambleEndLine),
                marker = MARKERS_PREAMBLE, description = ''High-level description'',
                contentOverride = None,
                desiredBlockLength = Some \<lfloor>real_of_int maxAllowedLength * 0.15\<rfloor>\<rparr>]
         else [])"

definition importKeywords :: "string list" where
  "importKeywords = [''import '', ''require('', ''from '', ''using '', ''package '']"

fun importScan :: "string list \<Rightarrow> int \<Rightarrow> int \<Rightarrow> bool \<Rightarrow> int" where
  \<comment> \<open>the loop of step 3 over the lines from index \<open>i\<close> on, with
      \<^verbatim>\<open>importAndSetupEndLine\<close> and \<^verbatim>\<open>foundFirstCodeOrImportLine\<close>\<close>
  "importScan [] i importAndSetupEndLine found = importAndSetupEndLine"
| "importScan (l # ls) i importAndSetupEndLine found =
     (let line' = trim l;
          isImportLike = list_ex (\<lambda>keyword. startsWith line' keyword) importKeywords;
          isCommentOrEmpty = (line' = [] \<or> startsWith line' ''//'' \<or> startsWith line' ''/*'')
      in if isImportLike then importScan ls (i + 1) i True
         else if \<not> isCommentOrEmpty \<and> found then importAndSetupEndLine
         else importScan ls (i + 1) importAndSetupEndLine found)"

definition importAndSetupEndLineOf :: "string list \<Rightarrow> int" where
  "importAndSetupEndLineOf fileLines = importScan fileLines 0 (- 1) False"

definition importCandidates :: "string list \<Rightarrow> int \<Rightarrow> ContentCandidate list" where
  \<comment> \<open>3. import statements and module-level setup\<close>
  "importCandidates fileLines maxAllowedLength =
     (let preambleEndLine = preambleEndLineOf fileLines;
          importAndSetupEndLine = importAndSetupEndLineOf fileLines
      in if importAndSetupEndLine \<ge> 0
         then (let startLineForImports = max (preambleEndLine + 1) 0
               in if importAndSetupEndLine \<ge> startLineForImports
                  then [\<lparr>priority = 4,
                         candidateRange = mkRange4 startLineForImports 0 importAndSetupEndLine
                                            (lineLengthAt fileLines importAndSetupEndLine),
                         marker = MARKERS_IMPORTS, description = ''Module Setup'',
                         contentOverride = None,
                         desiredBlockLength = Some \<lfloor>real_of_int maxAllowedLength * 0.2\<rfloor>\<rparr>]
                  else [])
         else [])"

fun exportedSymbolCandidates ::
  "string \<Rightarrow> int \<Rightarrow> DocumentSymbol list \<Rightarrow> error + ContentCandidate list" where
  \<comment> \<open>4. the body of the \<^verbatim>\<open>forEach\<close> over the exported symbols after the import block\<close>
  "exportedSymbolCandidates fileContent maxAllowedLength [] = Inr []"
| "exportedSymbolCandidates fileContent maxAllowedLength (symbol # rest) =
     (case getDocumentationRange fileContent symbol of
        Inl e \<Rightarrow> Inl e
      | Inr docRange \<Rightarrow>
     (case (if kind symbol = Interface \<or> kind symbol = TypeParameter
            then formatSymbolStructure symbol fileContent else Inr None) of
        Inl e \<Rightarrow> Inl e
      | Inr structuredContent \<Rightarrow>
     (case getDeclarationRange fileContent symbol of
        Inl e \<Rightarrow> Inl e
      | Inr declarationRange \<Rightarrow>
     (case exportedSymbolCandidates fileContent maxAllowedLength rest of
        Inl e \<Rightarrow> Inl e
      | Inr others \<Rightarrow>
          Inr ((case docRange of
                  None \<Rightarrow> []
                | Some r \<Rightarrow>
                    [\<lparr>priority = 3.9, candidateRange = r, marker = MARKERS_DOC,
                      description = ''Exported '' @ kindName (kind symbol) @ '' Documentation: '' @ name symbol,
                      contentOverride = None, desiredBlockLength = Some 512\<rparr>])
               @ (case structuredContent of
                    None \<Rightarrow> []
                  | Some c \<Rightarrow>
                      if c = [] then []
                      else [\<lparr>priority = 3.8, candidateRange = range' symbol, marker = MARKERS_STRUCT,
                             description = ''Exported '' @ kindName (kind symbol) @ '' Structure: '' @ name symbol,
                             contentOverride = Some c,
                             desiredBlockLength = Some \<lfloor>real_of_int maxAllowedLength * 0.15\<rfloor>\<rparr>])
               @ [\<lparr>priority = 3.7, candidateRange = declarationRange, marker = MARKERS_SIGNATURE,
                    description = ''Exported '' @ kindName (kind symbol) @ '' Signature: '' @ name symbol,
                    contentOverride = None, desiredBlockLength = Some 1024\<rparr>]
               @ others)))))"

definition callHierarchyCandidates ::
  "int \<Rightarrow> ActiveSymbolDetailedInfo option \<Rightarrow> ContentCandidate list" where
  \<comment> \<open>5. call hierarchy within the current file; the first argument is
      \<^verbatim>\<open>MAX_REFERENCED_TYPE_CONTENT_CHARS_CONSTANT\<close>\<close>
  "callHierarchyCandidates maxReferenced activeSymbolDetailedInfo =
     (case activeSymbolDetailedInfo of
        None \<Rightarrow> []
      | Some info \<Rightarrow>
          (case filePath info of
             None \<Rightarrow> []
           | Some fp \<Rightarrow>
               if fp = [] then []
               else
                 (let currentFileNormalizedPath = normalizeSlashes fp
                  in concat (map (\<lambda>call.
                         if isLocationInCurrentFile (callFrom call) currentFileNormalizedPath \<and>
                            fromRanges call \<noteq> []
                         then [\<lparr>priority = 3.25, candidateRange = hd (fromRanges call),
                                marker = MARKERS_CONTEXT,
                                description = ''Call to active symbol from: '' @ itemName (callFrom call),
                                contentOverride = None, desiredBlockLength = Some maxReferenced\<rparr>]
                         else [])
                       (case incomingCalls info of None \<Rightarrow> [] | Some cs \<Rightarrow> cs))
                   @ concat (map (\<lambda>call.
                         if isLocationInCurrentFile (callTo call) currentFileNormalizedPath
                         then [\<lparr>priority = 3.25, candidateRange = itemRange (callTo call),
                                marker = MARKERS_CONTEXT,
                                description = ''Active symbol calls: '' @ itemName (callTo call),
                                contentOverride = None, desiredBlockLength = Some maxReferenced\<rparr>]
                         else [])
                       (case outgoingCalls info of None \<Rightarrow> [] | Some cs \<Rightarrow> cs)))))"

fun internalSymbolCandidates :: "string \<Rightarrow> DocumentSymbol list \<Rightarrow> error + ContentCandidate list" where
  \<comment> \<open>6. the body of the \<^verbatim>\<open>forEach\<close> over the major symbols that are not of an exported kind\<close>
  "internalSymbolCandidates fileContent [] = Inr []"
| "internalSymbolCandidates fileContent (symbol # rest) =
     (case getDeclarationRange fileContent symbol of
        Inl e \<Rightarrow> Inl e
      | Inr declarationRange \<Rightarrow>
          (case internalSymbolCandidates fileContent rest of
             Inl e \<Rightarrow> Inl e
           | Inr others \<Rightarrow>
               Inr (\<lparr>priority = 3, candidateRange = declarationRange, marker = MARKERS_SIGNATURE,
                     description = ''Internal '' @ kindName (kind symbol) @ '' Signature: '' @ name symbol,
                     contentOverride = None, desiredBlockLength = Some 2048\<rparr> # others)))"

definition compareCandidates :: "ContentCandidate \<Rightarrow> ContentCandidate \<Rightarrow> real" where
  \<comment> \<open>\<^verbatim>\<open>b.priority - a.priority || a.range.start.line - b.range.start.line\<close>\<close>
  "compareCandidates a b =
     (if priority b - priority a \<noteq> 0 then priority b - priority a
      else real_of_int (line (start (candidateRange a)) - line (start (candidateRange b))))"

definition collectCandidates ::
  "int \<Rightarrow> string \<Rightarrow> DocumentSymbol list option \<Rightarrow> ActiveSymbolDetailedInfo option \<Rightarrow> int
   \<Rightarrow> error + ContentCandidate list" where
  \<comment> \<open>the candidate list before it is sorted\<close>
  "collectCandidates maxReferenced fileContent documentSymbols activeSymbolDetailedInfo maxAllowedLength =
     (let fileLines = splitLines fileContent;
          importAndSetupEndLine = importAndSetupEndLineOf fileLines;
          symbols = (case documentSymbols of None \<Rightarrow> [] | Some ss \<Rightarrow> ss)
      in case exportedSymbolCandidates fileContent maxAllowedLength
                (filter (\<lambda>symbol. kind symbol \<in> set EXPORTED_SYMBOL_KINDS \<and>
                                  line (start (range' symbol)) > importAndSetupEndLine) symbols) of
           Inl e \<Rightarrow> Inl e
         | Inr exported \<Rightarrow>
             (case internalSymbolCandidates fileContent
                     (filter (\<lambda>symbol. kind symbol \<in> set MAJOR_SYMBOL_KINDS \<and>
                                       kind symbol \<notin> set EXPORTED_SYMBOL_KINDS) symbols) of
                Inl e \<Rightarrow> Inl e
              | Inr internal \<Rightarrow>
                  Inr (activeSymbolCandidates activeSymbolDetailedInfo
                       @ preambleCandidates fileLines maxAllowedLength
                       @ importCandidates fileLines maxAllowedLength
                       @ exported
                       @ callHierarchyCandidates maxReferenced activeSymbolDetailedInfo
                       @ internal)))"

fun processCandidates :: "int \<Rightarrow> string \<Rightarrow> ContentCandidate list \<Rightarrow> SummaryState \<Rightarrow> SummaryState" where
  "processCandidates maxAllowedLength fileContent [] st = st"
| "processCandidates maxAllowedLength fileContent (candidate # rest) st =
     (if currentLength st \<ge> maxAllowedLength then st
      else
        (let contentRaw =
               (case contentOverride candidate of
                  None \<Rightarrow> extractContentForRange fileContent (candidateRange candidate)
                | Some c \<Rightarrow> if c \<noteq> [] then c
                            else extractContentForRange fileContent (candidateRange candidate))
         in processCandidates maxAllowedLength fileContent rest
              (if trim contentRaw \<noteq> []
               then snd (addContentBlock maxAllowedLength st contentRaw (candidateRange candidate)
                          (marker candidate) (description candidate) (desiredBlockLength candidate))
               else st)))"

function uncoveredBlockEnd :: "Range list \<Rightarrow> int \<Rightarrow> int \<Rightarrow> int" where
  \<comment> \<open>the inner loop of the fallback: extend the block while the next line is not covered\<close>
  "uncoveredBlockEnd included numLines blockEndLine =
     (if blockEndLine + 1 < numLines
      then (if list_ex (\<lambda>r. contains r (mkPosition (blockEndLine + 1) 0)) included then blockEndLine
            else uncoveredBlockEnd included numLines (blockEndLine + 1))
      else blockEndLine)"
  by pat_completeness auto
termination
  by (relation "measure (\<lambda>(included, numLines, blockEndLine). nat (numLines - blockEndLine))") auto

declare uncoveredBlockEnd.simps [simp del]

lemma uncoveredBlockEnd_ge: "blockEndLine \<le> uncoveredBlockEnd included numLines blockEndLine"
  by (induction included numLines blockEndLine rule: uncoveredBlockEnd.induct)
     (subst uncoveredBlockEnd.simps, auto)

function fallbackLoop :: "int \<Rightarrow> string \<Rightarrow> string list \<Rightarrow> int \<Rightarrow> SummaryState \<Rightarrow> SummaryState" where
  \<comment> \<open>the outer loop of the fallback from \<^verbatim>\<open>currentLine\<close> on; it starts at 0, so
      \<^verbatim>\<open>fileLines[currentLine]\<close> and \<^verbatim>\<open>fileLines[blockEndLine]\<close> are lines of the file\<close>
  "fallbackLoop maxAllowedLength fileContent fileLines currentLine st =
     (if currentLine < int (length fileLines) \<and> currentLength st < maxAllowedLength
      then
        (let lineRange = mkRange4 currentLine 0 currentLine
                           (int (length (fileLines ! nat currentLine)));
             isLineCovered = list_ex (\<lambda>r. contains r (start lineRange)) (includedRanges st)
         in if \<not> isLineCovered
            then
              (let blockEndLine = uncoveredBlockEnd (includedRanges st) (int (length fileLines)) currentLine;
                   snippetRange = mkRange4 currentLine 0 blockEndLine
                                    (int (length (fileLines ! nat blockEndLine)));
                   snippetContent = extractContentForRange fileContent snippetRange
               in fallbackLoop maxAllowedLength fileContent fileLines (blockEndLine + 1)
                    (if trim snippetContent \<noteq> []
                     then snd (addContentBlock maxAllowedLength st snippetContent snippetRange
                                MARKERS_CONTEXT
                                (''Lines '' @ showInt (currentLine + 1) @ ''-'' @ showInt (blockEndLine + 1))
                                (Some (maxAllowedLength - currentLength st)))
                     else st))
            else fallbackLoop maxAllowedLength fileContent fileLines (currentLine + 1) st)
      else st)"
  by pat_completeness auto
termination
proof (relation "measure (\<lambda>(maxAllowedLength, fileContent, fileLines, currentLine, st).
                     nat (int (length fileLines) - currentLine))", goal_cases)
  case 1
  then show ?case by simp
next
  case (2 maxAllowedLength fileContent fileLines currentLine st lineRange isLineCovered blockEndLine)
  then show ?case
    using uncoveredBlockEnd_ge [of currentLine "includedRanges st" "int (length fileLines)"] by simp
next
  case 3
  then show ?case by simp
qed

declare fallbackLoop.simps [simp del]

definition packCandidates ::
  "int \<Rightarrow> string \<Rightarrow> ContentCandidate list \<Rightarrow> SummaryState" where
  \<comment> \<open>the state after the candidates and the fallback have been processed\<close>
  "packCandidates maxAllowedLength fileContent candidates =
     (let st0 = \<lparr>currentLength = 0, collectedParts = [], includedRanges = []\<rparr>;
          st1 = processCandidates maxAllowedLength fileContent (sortBy compareCandidates candidates) st0
      in if currentLength st1 < maxAllowedLength
         then fallbackLoop maxAllowedLength fileContent (splitLines fileContent) 0 st1
         else st1)"

definition assemble :: "int \<Rightarrow> string \<Rightarrow> SummaryState \<Rightarrow> string" where
  \<comment> \<open>the final assembly\<close>
  "assemble maxAllowedLength fileContent st =
     (let sorted = sortBy (\<lambda>a b. real_of_int (snd a - snd b)) (collectedParts st);
          joined = joinWith ([CHR 0x0A, CHR 0x0A] @ ''// ... (non-contiguous section) ...'' @ [CHR 0x0A, CHR 0x0A])
                     (map fst sorted);
          finalContent = (if int (length joined) > maxAllowedLength
                          then substring joined 0 maxAllowedLength @ [CHR 0x0A] @ ''// ... (truncated)''
                          else joined)
      in if trim finalContent = [] \<and> length fileContent > 0
         then ''// File content could not be summarized. Snippet: ''
              @ substring fileContent 0 (min (int (length fileContent)) 100) @ ''...''
         else trim finalContent)"

definition summaryState ::
  "int \<Rightarrow> string \<Rightarrow> DocumentSymbol list option \<Rightarrow> ActiveSymbolDetailedInfo option \<Rightarrow> int
   \<Rightarrow> error + SummaryState" where
  \<comment> \<open>the accepted blocks and ranges when the final assembly starts\<close>
  "summaryState maxReferenced fileContent documentSymbols activeSymbolDetailedInfo maxAllowedLength =
     (case collectCandidates maxReferenced fileContent documentSymbols activeSymbolDetailedInfo
             maxAllowedLength of
        Inl e \<Rightarrow> Inl e
      | Inr candidates \<Rightarrow> Inr (packCandidates maxAllowedLength fileContent candidates))"

definition intelligentlySummarizeFileContent ::
  "int \<Rightarrow> string \<Rightarrow> DocumentSymbol list option \<Rightarrow> ActiveSymbolDetailedInfo option \<Rightarrow> int
   \<Rightarrow> error + string" where
  \<comment> \<open>the first argument stands for \<^verbatim>\<open>MAX_REFERENCED_TYPE_CONTENT_CHARS_CONSTANT\<close>, which the
      module imports; an exception thrown on the way is the \<^const>\<open>Inl\<close> result\<close>
  "intelligentlySummarizeFileContent maxReferenced fileContent documentSymbols activeSymbolDetailedInfo
       maxAllowedLength =
     (case summaryState maxReferenced fileContent documentSymbols activeSymbolDetailedInfo
             maxAllowedLength of
        Inl e \<Rightarrow> Inl e
      | Inr st \<Rightarrow> Inr (assemble maxAllowedLength fileContent st))"

section \<open>Notions used in the statements and proofs\<close>

definition hasLink :: "SemanticGraph \<Rightarrow> string \<Rightarrow> string \<Rightarrow> real \<Rightarrow> bool" where
  \<comment> \<open>the link list of \<open>a\<close> holds the entry \<open>{relatedPath: b, score: s}\<close>\<close>
  "hasLink g a b s =
     (case map_of g a of None \<Rightarrow> False | Some ls \<Rightarrow> \<lparr>relatedPath = b, score = s\<rparr> \<in> set ls)"

definition countOf :: "('k \<times> nat) list \<Rightarrow> 'k \<Rightarrow> nat" where
  \<comment> \<open>\<^verbatim>\<open>m.get(k) || 0\<close>\<close>
  "countOf m k = (case map_of m k of None \<Rightarrow> 0 | Some n \<Rightarrow> n)"

definition lineCount :: "Range \<Rightarrow> int" where
  "lineCount r = line (end' r) - line (start r) + 1"

definition sharedLines :: "Range \<Rightarrow> Range \<Rightarrow> int" where
  \<comment> \<open>how many source lines two ranges have in common\<close>
  "sharedLines r1 r2 =
     max 0 (min (line (end' r1)) (line (end' r2)) - max (line (start r1)) (line (start r2)) + 1)"

definition acceptedInOrder :: "Range list \<Rightarrow> bool" where
  \<comment> \<open>every range passed the overlap test against the ranges accepted before it\<close>
  "acceptedInOrder rs = (\<forall>j < length rs. \<not> isSubstantiallyOverlapping (take j rs) (rs ! j))"

definition isActiveCandidate :: "ContentCandidate \<Rightarrow> bool" where
  "isActiveCandidate c = (marker c = MARKERS_ACTIVE_SYMBOL \<or> priority c = 5)"

definition withinFile :: "string list \<Rightarrow> DocumentSymbol \<Rightarrow> bool" where
  \<comment> \<open>the lines of the symbol's range are lines of the file\<close>
  "withinFile lines symbol =
     (0 \<le> line (start (range' symbol)) \<and>
      line (start (range' symbol)) \<le> line (end' (range' symbol)) \<and>
      line (end' (range' symbol)) < int (length lines))"

definition symbolsWithinFile :: "string list \<Rightarrow> DocumentSymbol list \<Rightarrow> bool" where
  \<comment> \<open>every symbol and every child of a symbol lies within the file\<close>
  "symbolsWithinFile lines symbols =
     list_all (\<lambda>symbol. withinFile lines symbol \<and> list_all (withinFile lines) (children symbol)) symbols"

definition squaredMagnitude :: "('a \<Rightarrow> real) \<Rightarrow> 'a list \<Rightarrow> real \<Rightarrow> real" where
  \<comment> \<open>the squared magnitude of a vector with the weights \<open>w\<close>, accumulated term by term as
      the loop of \<^const>\<open>calculateCosineSimilarity\<close> does\<close>
  "squaredMagnitude w ts acc = fold (\<lambda>t m. dadd m (dmul (w t) (w t))) ts acc"

definition survivingTerms :: "string \<Rightarrow> string list" where
  \<comment> \<open>the distinct terms of a summary that pass the stop-word and length filter\<close>
  "survivingTerms summary = map fst (termFrequenciesOf summary)"

definition occursInEveryDocument :: "(string \<times> string) list \<Rightarrow> string \<Rightarrow> bool" where
  \<comment> \<open>the term survives in the summary of every document of the corpus\<close>
  "occursInEveryDocument fileSummaries t =
     list_all (\<lambda>(p, s). t \<in> set (survivingTerms s)) fileSummaries"

section \<open>The semantic graph: auxiliary facts\<close>

subsection \<open>Loops and maps\<close>

lemma fold_invariant:
  assumes "P s" and "\<And>x t. x \<in> set xs \<Longrightarrow> P t \<Longrightarrow> P (f x t)"
  shows "P (fold f xs s)"
  using assms by (induction xs arbitrary: s) auto

lemma set_jsSetOf_fold:
  "set (fold (\<lambda>x s. if x \<in> set s then s else s @ [x]) xs s0) = set xs \<union> set s0"
  by (induction xs arbitrary: s0) auto

lemma set_jsSetOf [simp]: "set (jsSetOf xs) = set xs"
  by (simp add: jsSetOf_def set_jsSetOf_fold)

lemma distinct_jsSetOf_fold:
  "distinct s0 \<Longrightarrow> distinct (fold (\<lambda>x s. if x \<in> set s then s else s @ [x]) xs s0)"
  by (induction xs arbitrary: s0) auto

lemma distinct_jsSetOf [simp]: "distinct (jsSetOf xs)"
  by (simp add: jsSetOf_def distinct_jsSetOf_fold)

lemma linkAll_invariant:
  assumes base: "P []"
    and step: "\<And>i j g. i < j \<Longrightarrow> j < length filePaths \<Longrightarrow> P g \<Longrightarrow>
                 P (linkStep vecs (filePaths ! i) (filePaths ! j) g)"
  shows "P (linkAll vecs filePaths)"
  unfolding linkAll_def
proof (rule fold_invariant [where P = P, OF base])
  fix i g
  assume i: "i \<in> set [0 ..< length filePaths]" and g: "P g"
  show "P (fold (\<lambda>j g'. linkStep vecs (filePaths ! i) (filePaths ! j) g')
             [i + 1 ..< length filePaths] g)"
  proof (rule fold_invariant [where P = P, OF g])
    fix j t
    assume "j \<in> set [i + 1 ..< length filePaths]" and "P t"
    then show "P (linkStep vecs (filePaths ! i) (filePaths ! j) t)"
      using step [of i j t] by simp
  qed
qed

lemma map_of_pushLink:
  "map_of (pushLink g p l) =
     (map_of g)(p \<mapsto> (case map_of g p of None \<Rightarrow> [] | Some ls \<Rightarrow> ls) @ [l])"
  by (auto simp: pushLink_def Let_def update_conv' fun_eq_iff split: option.splits)

lemma keys_pushLink: "fst ` set (pushLink g p l) = insert p (fst ` set g)"
  by (auto simp: pushLink_def Let_def dom_update)

lemma linkStep_cases:
  obtains (same) "linkStep vecs a b g = g"
  | (linked) va vb where "map_of vecs a = Some va" "map_of vecs b = Some vb"
      "calculateCosineSimilarity va vb > roundToDouble 0.01"
      "linkStep vecs a b g =
         pushLink (pushLink g a \<lparr>relatedPath = b, score = calculateCosineSimilarity va vb\<rparr>)
           b \<lparr>relatedPath = a, score = calculateCosineSimilarity va vb\<rparr>"
proof (cases "map_of vecs a")
  case None
  then show ?thesis using same by (simp add: linkStep_def)
next
  case (Some va)
  note A = this
  show ?thesis
  proof (cases "map_of vecs b")
    case None
    then show ?thesis using same A by (simp add: linkStep_def)
  next
    case (Some vb)
    show ?thesis
    proof (cases "calculateCosineSimilarity va vb > roundToDouble 0.01")
      case True
      then show ?thesis using linked [OF A Some] A Some
        unfolding linkStep_def Let_def by (simp del: divide_numeral_1)
    next
      case False
      then show ?thesis using same A Some
        unfolding linkStep_def Let_def by (simp del: divide_numeral_1)
    qed
  qed
qed

lemma set_insertBy: "set (insertBy cmp x xs) = insert x (set xs)"
  by (induction xs) auto

lemma set_sortBy: "set (sortBy cmp xs) = set xs"
  unfolding sortBy_def by (induction xs) (auto simp: set_insertBy)

lemma length_insertBy: "length (insertBy cmp x xs) = Suc (length xs)"
  by (induction xs) auto

lemma length_sortBy: "length (sortBy cmp xs) = length xs"
  unfolding sortBy_def by (induction xs) (auto simp: length_insertBy)

lemma map_of_sortLinks:
  "map_of (sortLinks g) p = map_option (sortBy (\<lambda>a b. dsub (score b) (score a))) (map_of g p)"
  unfolding sortLinks_def by (induction g) auto

lemma keys_sortLinks: "fst ` set (sortLinks g) = fst ` set g"
  unfolding sortLinks_def by force

lemma hasLink_pushLink:
  "hasLink (pushLink g p l) a b s \<longleftrightarrow>
     hasLink g a b s \<or> (a = p \<and> l = \<lparr>relatedPath = b, score = s\<rparr>)"
  by (auto simp: hasLink_def map_of_pushLink split: option.splits)

lemma hasLink_sortLinks: "hasLink (sortLinks g) a b s \<longleftrightarrow> hasLink g a b s"
  by (auto simp: hasLink_def map_of_sortLinks set_sortBy split: option.splits)

lemma hasLink_linkAll_symmetric:
  "hasLink (linkAll vecs filePaths) a b s \<Longrightarrow> hasLink (linkAll vecs filePaths) b a s"
proof -
  let ?P = "\<lambda>g. \<forall>a b s. hasLink g a b s \<longrightarrow> hasLink g b a s"
  have "?P (linkAll vecs filePaths)"
  proof (rule linkAll_invariant)
    show "?P []" by (simp add: hasLink_def)
  next
    fix i j g
    assume g: "?P g"
    show "?P (linkStep vecs (filePaths ! i) (filePaths ! j) g)"
    proof (cases rule: linkStep_cases [of vecs "filePaths ! i" "filePaths ! j" g])
      case same
      then show ?thesis using g by simp
    next
      case (linked va vb)
      show ?thesis unfolding linked(4) hasLink_pushLink using g by blast
    qed
  qed
  then show "hasLink (linkAll vecs filePaths) a b s \<Longrightarrow> hasLink (linkAll vecs filePaths) b a s"
    by blast
qed

lemma in_links_pushLink:
  assumes "map_of (pushLink g p l) q = Some ls" and "x \<in> set ls"
  shows "(\<exists>ls'. map_of g q = Some ls' \<and> x \<in> set ls') \<or> (q = p \<and> x = l)"
proof (cases "q = p")
  case True
  then show ?thesis using assms by (cases "map_of g p") (auto simp: map_of_pushLink)
next
  case False
  then show ?thesis using assms by (simp add: map_of_pushLink)
qed

lemma linkAll_links:
  assumes new: "\<And>i j va vb. i < j \<Longrightarrow> j < length filePaths \<Longrightarrow>
      map_of vecs (filePaths ! i) = Some va \<Longrightarrow> map_of vecs (filePaths ! j) = Some vb \<Longrightarrow>
      calculateCosineSimilarity va vb > roundToDouble 0.01 \<Longrightarrow>
      Q (filePaths ! i) \<lparr>relatedPath = filePaths ! j, score = calculateCosineSimilarity va vb\<rparr> \<and>
      Q (filePaths ! j) \<lparr>relatedPath = filePaths ! i, score = calculateCosineSimilarity va vb\<rparr>"
    and p: "map_of (linkAll vecs filePaths) p = Some ls" and l: "l \<in> set ls"
  shows "Q p l"
proof -
  let ?P = "\<lambda>g. \<forall>p ls l. map_of g p = Some ls \<and> l \<in> set ls \<longrightarrow> Q p l"
  have "?P (linkAll vecs filePaths)"
  proof (rule linkAll_invariant)
    show "?P []" by simp
  next
    fix i j g
    assume ij: "i < j" "j < length filePaths" and g: "?P g"
    show "?P (linkStep vecs (filePaths ! i) (filePaths ! j) g)"
    proof (cases rule: linkStep_cases [of vecs "filePaths ! i" "filePaths ! j" g])
      case same
      then show ?thesis using g by simp
    next
      case (linked va vb)
      note q = new [OF ij linked(1) linked(2) linked(3)]
      show ?thesis unfolding linked(4)
      proof (intro allI impI, elim conjE)
        fix p ls l
        assume m: "map_of (pushLink (pushLink g (filePaths ! i)
                 \<lparr>relatedPath = filePaths ! j, score = calculateCosineSimilarity va vb\<rparr>)
                 (filePaths ! j) \<lparr>relatedPath = filePaths ! i, score = calculateCosineSimilarity va vb\<rparr>) p
               = Some ls" and l: "l \<in> set ls"
        from in_links_pushLink [OF m l] show "Q p l"
        proof
          assume "\<exists>ls'. map_of (pushLink g (filePaths ! i)
                 \<lparr>relatedPath = filePaths ! j, score = calculateCosineSimilarity va vb\<rparr>) p = Some ls'
                 \<and> l \<in> set ls'"
          then obtain ls' where m': "map_of (pushLink g (filePaths ! i)
                 \<lparr>relatedPath = filePaths ! j, score = calculateCosineSimilarity va vb\<rparr>) p = Some ls'"
              and l': "l \<in> set ls'" by blast
          from in_links_pushLink [OF m' l'] show "Q p l" using g q by blast
        next
          assume "p = filePaths ! j \<and>
                  l = \<lparr>relatedPath = filePaths ! i, score = calculateCosineSimilarity va vb\<rparr>"
          then show "Q p l" using q by simp
        qed
      qed
    qed
  qed
  then show ?thesis using p l by blast
qed

lemma keys_linkAll: "fst ` set (linkAll vecs filePaths) \<subseteq> set filePaths"
proof (rule linkAll_invariant)
  show "fst ` set ([] :: SemanticGraph) \<subseteq> set filePaths" by simp
next
  fix i j and g :: SemanticGraph
  assume ij: "i < j" "j < length filePaths" and g: "fst ` set g \<subseteq> set filePaths"
  show "fst ` set (linkStep vecs (filePaths ! i) (filePaths ! j) g) \<subseteq> set filePaths"
  proof (cases rule: linkStep_cases [of vecs "filePaths ! i" "filePaths ! j" g])
    case same
    then show ?thesis using g by simp
  next
    case (linked va vb)
    show ?thesis unfolding linked(4) keys_pushLink using g ij by auto
  qed
qed

lemma linkAll_no_self_link:
  assumes d: "distinct filePaths"
    and ls: "map_of (linkAll vecs filePaths) p = Some ls" "l \<in> set ls"
  shows "relatedPath l \<noteq> p \<and> relatedPath l \<in> set filePaths"
proof (rule linkAll_links [where Q = "\<lambda>p l. relatedPath l \<noteq> p \<and> relatedPath l \<in> set filePaths",
        OF _ ls])
  fix i j va vb
  assume ij: "i < j" "j < length filePaths"
  then have "filePaths ! i \<noteq> filePaths ! j"
    using d by (simp add: nth_eq_iff_index_eq)
  moreover have "filePaths ! i \<in> set filePaths" "filePaths ! j \<in> set filePaths"
    using ij by simp_all
  ultimately show
    "(relatedPath \<lparr>relatedPath = filePaths ! j, score = calculateCosineSimilarity va vb\<rparr> \<noteq> filePaths ! i \<and>
      relatedPath \<lparr>relatedPath = filePaths ! j, score = calculateCosineSimilarity va vb\<rparr> \<in> set filePaths) \<and>
     (relatedPath \<lparr>relatedPath = filePaths ! i, score = calculateCosineSimilarity va vb\<rparr> \<noteq> filePaths ! j \<and>
      relatedPath \<lparr>relatedPath = filePaths ! i, score = calculateCosineSimilarity va vb\<rparr> \<in> set filePaths)"
    by simp
qed

lemma buildSemanticGraph_links:
  assumes "map_of (buildSemanticGraph fs) p = Some links" and "l \<in> set links"
  shows "\<exists>ls. map_of (linkAll (tfidfVectorsOf fs) (map fst fs)) p = Some ls \<and> l \<in> set ls"
  using assms
  by (auto simp: buildSemanticGraph_def Let_def map_of_sortLinks set_sortBy split: if_splits)

subsection \<open>Term and document frequencies\<close>

lemma countOf_countDocument:
  "countOf (countDocument dfMap token) t = countOf dfMap t + (if t = token then 1 else 0)"
  by (simp add: countOf_def countDocument_def update_conv')

lemma countOf_fold_countDocument:
  "distinct ts \<Longrightarrow>
   countOf (fold (\<lambda>token df. countDocument df token) ts dfMap) t
     = countOf dfMap t + (if t \<in> set ts then 1 else 0)"
  by (induction ts arbitrary: dfMap) (auto simp: countOf_countDocument)

lemma fst_fold_tfdfStep:
  "map_of (fst (fold (tfdfStep fs) ps st)) q =
     (if q \<in> set ps
      then Some (termFrequenciesOf (case map_of fs q of None \<Rightarrow> [] | Some s \<Rightarrow> s))
      else map_of (fst st) q)"
  by (induction ps arbitrary: st) (auto simp: tfdfStep_def Let_def update_conv')

lemma snd_fold_tfdfStep:
  "countOf (snd (fold (tfdfStep fs) ps st)) t =
     countOf (snd st) t +
     length (filter (\<lambda>p. t \<in> fst ` set (termFrequenciesOf
                (case map_of fs p of None \<Rightarrow> [] | Some s \<Rightarrow> s))) ps)"
  by (induction ps arbitrary: st)
     (auto simp: tfdfStep_def Let_def countOf_fold_countDocument)

lemma map_of_countToken_pos:
  "(\<And>n. map_of tf t = Some n \<Longrightarrow> 0 < n) \<Longrightarrow> map_of (countToken tf token) t = Some n \<Longrightarrow> 0 < n"
  by (auto simp: countToken_def update_conv' split: if_splits)

lemma termFrequencies_fold_props:
  "distinct (map fst tf0) \<Longrightarrow> (\<forall>t n. map_of tf0 t = Some n \<longrightarrow> 0 < n) \<Longrightarrow>
   distinct (map fst (fold (\<lambda>token tf. countToken tf token) tokens tf0)) \<and>
   (\<forall>t n. map_of (fold (\<lambda>token tf. countToken tf token) tokens tf0) t = Some n \<longrightarrow> 0 < n)"
proof (induction tokens arbitrary: tf0)
  case Nil
  then show ?case by simp
next
  case (Cons token tokens)
  have d: "distinct (map fst (countToken tf0 token))"
    using Cons.prems(1) by (simp add: countToken_def distinct_update)
  have p: "\<forall>t n. map_of (countToken tf0 token) t = Some n \<longrightarrow> 0 < n"
    using Cons.prems(2) map_of_countToken_pos [of tf0] by blast
  show ?case using Cons.IH [OF d p] by simp
qed

lemma distinct_termFrequenciesOf: "distinct (map fst (termFrequenciesOf s))"
  using termFrequencies_fold_props [of "[]"] by (simp add: termFrequenciesOf_def Let_def)

lemma termFrequenciesOf_pos: "map_of (termFrequenciesOf s) t = Some n \<Longrightarrow> 0 < n"
proof -
  have "distinct (map fst ([] :: (string \<times> nat) list))" by simp
  moreover have "\<forall>t n. map_of ([] :: (string \<times> nat) list) t = Some n \<longrightarrow> 0 < n" by simp
  ultimately have "\<forall>t n. map_of (fold (\<lambda>token tf. countToken tf token)
                     (map toLowerCase (matchWords [] s)) []) t = Some n \<longrightarrow> 0 < n"
    by (rule termFrequencies_fold_props [THEN conjunct2])
  then show "map_of (termFrequenciesOf s) t = Some n \<Longrightarrow> 0 < n"
    unfolding termFrequenciesOf_def Let_def by blast
qed

lemma map_of_fold_update_distinct:
  "distinct (map fst xs) \<Longrightarrow>
   map_of (fold (\<lambda>(k, v) m. AList.update k (f k v) m) xs m0) k =
     (case map_of xs k of None \<Rightarrow> map_of m0 k | Some v \<Rightarrow> Some (f k v))"
proof (induction xs arbitrary: m0)
  case Nil
  then show ?case by simp
next
  case (Cons x xs)
  obtain k' v' where x: "x = (k', v')" by (cases x)
  have nk: "map_of xs k' = None" and d: "distinct (map fst xs)"
    using Cons.prems by (auto simp: x map_of_eq_None_iff)
  have step: "map_of (fold (\<lambda>(k, v) m. AList.update k (f k v) m) (x # xs) m0) k =
        (case map_of xs k of None \<Rightarrow> map_of (AList.update k' (f k' v') m0) k
         | Some v \<Rightarrow> Some (f k v))"
    using Cons.IH [OF d, of "AList.update k' (f k' v') m0"] by (simp add: x)
  show ?case
  proof (cases "k = k'")
    case True
    then show ?thesis unfolding step by (simp add: x nk update_conv')
  next
    case False
    then show ?thesis unfolding step by (simp add: x update_conv' split: option.splits)
  qed
qed

lemma map_of_tfidfVectorOf:
  "map_of (tfidfVectorOf totalDocs dfMap (termFrequenciesOf s)) t =
     map_option (\<lambda>n. dmul (real n) (Math_log (ddiv (real totalDocs)
        (real (if countOf dfMap t = 0 then 1 else countOf dfMap t)))))
       (map_of (termFrequenciesOf s) t)"
proof -
  have "tfidfVectorOf totalDocs dfMap tf =
          fold (\<lambda>(k, v) m. AList.update k
                 (dmul (real v) (Math_log (ddiv (real totalDocs) (real (if countOf dfMap k = 0 then 1 else countOf dfMap k))))) m)
               tf []" for tf
    unfolding tfidfVectorOf_def Let_def countOf_def
    by (rule arg_cong [where f = "\<lambda>g. fold g tf []"]) (auto simp: fun_eq_iff split: option.splits)
  then show ?thesis
    using map_of_fold_update_distinct [OF distinct_termFrequenciesOf [of s],
        where f = "\<lambda>k v. dmul (real v) (Math_log (ddiv (real totalDocs) (real (if countOf dfMap k = 0 then 1 else countOf dfMap k))))"
          and ?m0.0 = "[]" and k = t]
    by (simp split: option.splits)
qed

lemma map_of_fold_tfidfStep:
  "map_of (fold (tfidfStep totalDocs tfMaps dfMap) ps vecs) q =
     (if q \<in> set ps \<and> map_of tfMaps q \<noteq> None
      then map_option (tfidfVectorOf totalDocs dfMap) (map_of tfMaps q)
      else map_of vecs q)"
  by (induction ps arbitrary: vecs) (auto simp: tfidfStep_def update_conv' split: option.splits)

lemma map_of_tfidfVectorsOf:
  assumes "map_of fs p = Some summary"
  shows "map_of (tfidfVectorsOf fs) p =
           Some (tfidfVectorOf (length fs) (snd (tfdfMaps fs)) (termFrequenciesOf summary))"
proof -
  have p: "p \<in> set (map fst fs)" using assms by (auto dest: map_of_SomeD intro: rev_image_eqI)
  have tf: "map_of (fst (tfdfMaps fs)) p = Some (termFrequenciesOf summary)"
    unfolding tfdfMaps_def using p assms by (simp add: fst_fold_tfdfStep)
  show ?thesis
    unfolding tfidfVectorsOf_def Let_def case_prod_beta
    using p tf by (simp add: map_of_fold_tfidfStep)
qed

lemma documentFrequency_count:
  "countOf (snd (tfdfMaps fs)) t =
     length (filter (\<lambda>p. t \<in> fst ` set (termFrequenciesOf
                (case map_of fs p of None \<Rightarrow> [] | Some s \<Rightarrow> s))) (map fst fs))"
  unfolding tfdfMaps_def snd_fold_tfdfStep by (simp add: countOf_def)

subsection \<open>Rounding to double precision\<close>

lemma roundHalfEven_error: "\<bar>of_int (roundHalfEven y) - y\<bar> \<le> 1/2"
  unfolding roundHalfEven_def Let_def by (auto simp: abs_if) linarith+

lemma roundHalfEven_near: "\<bar>y - of_int k\<bar> < 1/2 \<Longrightarrow> roundHalfEven y = k"
proof -
  assume a: "\<bar>y - of_int k\<bar> < 1/2"
  show ?thesis
  proof (cases "of_int k \<le> y")
    case True
    then have "\<lfloor>y\<rfloor> = k" using a by (intro floor_unique) (auto simp: abs_if split: if_splits)
    then show ?thesis using a True by (simp add: roundHalfEven_def Let_def abs_if split: if_splits)
  next
    case False
    then have f: "\<lfloor>y\<rfloor> = k - 1" using a by (intro floor_unique) (auto simp: abs_if split: if_splits)
    show ?thesis using a False unfolding roundHalfEven_def Let_def f
      by (auto simp: abs_if split: if_splits)
  qed
qed

lemma roundHalfEven_tie_even: "y = of_int k + 1/2 \<Longrightarrow> even k \<Longrightarrow> roundHalfEven y = k"
proof -
  assume y: "y = of_int k + 1/2" and e: "even k"
  have "\<lfloor>y\<rfloor> = k" unfolding y by (intro floor_unique) auto
  then show ?thesis using e by (simp add: roundHalfEven_def Let_def y)
qed

lemma roundToDouble_0 [simp]: "roundToDouble 0 = 0"
  by (simp add: roundToDouble_def)

lemma roundToDouble_error: "\<bar>roundToDouble x - x\<bar> \<le> \<bar>x\<bar> / 2 ^ 53"
proof (cases "x = 0")
  case True
  then show ?thesis by simp
next
  case False
  define e where "e = \<lfloor>log 2 \<bar>x\<bar>\<rfloor>"
  define q :: real where "q = 2 powr (of_int e - 52)"
  have q: "0 < q" by (simp add: q_def)
  have "of_int e \<le> log 2 \<bar>x\<bar>" by (simp add: e_def)
  then have lo: "2 powr of_int e \<le> \<bar>x\<bar>" using False by (simp add: le_log_iff)
  have "roundToDouble x = of_int (roundHalfEven (x / q)) * q"
    using False by (simp add: roundToDouble_def e_def q_def Let_def)
  moreover have "(of_int (roundHalfEven (x / q)) - x / q) * q = of_int (roundHalfEven (x / q)) * q - x"
    using q by (simp add: left_diff_distrib)
  ultimately have "\<bar>roundToDouble x - x\<bar> = \<bar>(of_int (roundHalfEven (x / q)) - x / q) * q\<bar>"
    by simp
  also have "\<dots> = \<bar>of_int (roundHalfEven (x / q)) - x / q\<bar> * q"
    using q by (simp add: abs_mult)
  also have "\<dots> \<le> 1/2 * q" using roundHalfEven_error [of "x / q"] q by (intro mult_right_mono) auto
  also have "\<dots> = 2 powr of_int e / 2 ^ 53"
    by (simp add: q_def powr_diff powr_numeral)
  also have "\<dots> \<le> \<bar>x\<bar> / 2 ^ 53" using lo by (simp add: divide_right_mono)
  finally show ?thesis .
qed

lemma roundToDouble_eqI:
  assumes "0 < x"
    and "2 powr of_int e \<le> x" and "x < 2 powr (of_int e + 1)"
    and "roundHalfEven (x / 2 powr (of_int e - 52)) = k"
  shows "roundToDouble x = of_int k * 2 powr (of_int e - 52)"
proof -
  have "\<lfloor>log 2 \<bar>x\<bar>\<rfloor> = e"
    using assms(1-3) by (simp add: floor_log_eq_powr_iff)
  then show ?thesis using assms(1,4) by (simp add: roundToDouble_def Let_def)
qed

lemma roundToDouble_lower: "0 \<le> x \<Longrightarrow> x * (1 - 1 / 2 ^ 53) \<le> roundToDouble x"
  using roundToDouble_error [of x] by (simp add: abs_if algebra_simps split: if_splits)

lemma roundToDouble_upper: "0 \<le> x \<Longrightarrow> roundToDouble x \<le> x * (1 + 1 / 2 ^ 53)"
  using roundToDouble_error [of x] by (simp add: abs_if algebra_simps split: if_splits)

lemma roundToDouble_nonneg: "0 \<le> x \<Longrightarrow> 0 \<le> roundToDouble x"
proof -
  assume x: "0 \<le> x"
  have "0 \<le> x * (1 - 1 / 2 ^ 53)" using x by (intro mult_nonneg_nonneg) auto
  then show ?thesis using roundToDouble_lower [OF x] by linarith
qed

lemma roundToDouble_pos: "0 < x \<Longrightarrow> 0 < roundToDouble x"
proof -
  assume x: "0 < x"
  have "0 < x * (1 - 1 / 2 ^ 53)" using x by (intro mult_pos_pos) auto
  then show ?thesis using roundToDouble_lower [of x] x by linarith
qed

lemma roundToDouble_one: "roundToDouble 1 = 1"
  by (subst roundToDouble_eqI [where e = 0 and k = "2 ^ 52"])
     (auto intro!: roundHalfEven_near simp: powr_minus powr_numeral powr_neg_numeral)

lemma roundToDouble_threshold: "roundToDouble 0.01 = 5764607523034235 / 2 ^ 59"
  by (subst roundToDouble_eqI [where e = "-7" and k = 5764607523034235])
     (auto intro!: roundHalfEven_near simp: powr_minus powr_numeral powr_neg_numeral)

lemma dmul_self_nonneg: "0 \<le> dmul x x"
  by (simp add: dmul_def roundToDouble_nonneg)

lemma dmul_self_pos: "x \<noteq> 0 \<Longrightarrow> 0 < dmul x x"
  unfolding dmul_def by (rule roundToDouble_pos) (auto simp: zero_less_mult_iff)

lemma dadd_nonneg: "0 \<le> x \<Longrightarrow> 0 \<le> y \<Longrightarrow> 0 \<le> dadd x y"
  by (simp add: dadd_def roundToDouble_nonneg)

lemma dadd_pos: "0 \<le> x \<Longrightarrow> 0 \<le> y \<Longrightarrow> 0 < x \<or> 0 < y \<Longrightarrow> 0 < dadd x y"
  unfolding dadd_def by (rule roundToDouble_pos) linarith

subsection \<open>The cosine of a vector with itself\<close>

lemma fold_same_scores:
  "fold (\<lambda>term (d, ma, mb).
           let scoreA = w term; scoreB = w term
           in (dadd d (dmul scoreA scoreB), dadd ma (dmul scoreA scoreA), dadd mb (dmul scoreB scoreB)))
        ts (m, m, m)
   = (squaredMagnitude w ts m, squaredMagnitude w ts m, squaredMagnitude w ts m)"
  unfolding squaredMagnitude_def by (induction ts arbitrary: m) (simp_all add: Let_def)

lemma squaredMagnitude_nonneg: "0 \<le> acc \<Longrightarrow> 0 \<le> squaredMagnitude w ts acc"
  unfolding squaredMagnitude_def
  by (induction ts arbitrary: acc) (simp_all add: dadd_nonneg dmul_self_nonneg)

lemma squaredMagnitude_pos_acc: "0 < acc \<Longrightarrow> 0 < squaredMagnitude w ts acc"
  unfolding squaredMagnitude_def
proof (induction ts arbitrary: acc)
  case Nil
  then show ?case by simp
next
  case (Cons t ts)
  have "0 < dadd acc (dmul (w t) (w t))"
    using Cons.prems by (intro dadd_pos) (auto simp: dmul_self_nonneg)
  then show ?case using Cons.IH by simp
qed

lemma squaredMagnitude_pos:
  "0 \<le> acc \<Longrightarrow> t \<in> set ts \<Longrightarrow> w t \<noteq> 0 \<Longrightarrow> 0 < squaredMagnitude w ts acc"
proof (induction ts arbitrary: acc)
  case Nil
  then show ?case by simp
next
  case (Cons u ts)
  have step: "squaredMagnitude w (u # ts) acc = squaredMagnitude w ts (dadd acc (dmul (w u) (w u)))"
    by (simp add: squaredMagnitude_def)
  have nn: "0 \<le> dadd acc (dmul (w u) (w u))"
    using Cons.prems(1) by (simp add: dadd_nonneg dmul_self_nonneg)
  show ?case
  proof (cases "u = t")
    case True
    then have "0 < dadd acc (dmul (w u) (w u))"
      using Cons.prems by (intro dadd_pos) (auto simp: dmul_self_nonneg dmul_self_pos)
    then show ?thesis unfolding step by (rule squaredMagnitude_pos_acc)
  next
    case False
    then show ?thesis unfolding step using Cons.IH [OF nn] Cons.prems by simp
  qed
qed

lemma squaredMagnitude_zero: "(\<And>t. t \<in> set ts \<Longrightarrow> w t = 0) \<Longrightarrow> squaredMagnitude w ts 0 = 0"
  unfolding squaredMagnitude_def
  by (induction ts) (simp_all add: dadd_def dmul_def)

lemma calculateCosineSimilarity_same:
  "calculateCosineSimilarity v v =
     (let m = squaredMagnitude (\<lambda>t. case map_of v t of None \<Rightarrow> 0 | Some x \<Rightarrow> x)
                (jsSetOf (jsSetOf (map fst v) @ jsSetOf (map fst v))) 0
      in if m = 0 then 0 else ddiv m (dmul (Math_sqrt m) (Math_sqrt m)))"
  unfolding calculateCosineSimilarity_def Let_def
  using fold_same_scores [of "\<lambda>t. case map_of v t of None \<Rightarrow> 0 | Some x \<Rightarrow> x"
      "jsSetOf (jsSetOf (map fst v) @ jsSetOf (map fst v))" 0]
  by (simp add: Let_def)

lemma self_cosine_near_one:
  assumes "0 < m"
  shows "\<bar>ddiv m (dmul (Math_sqrt m) (Math_sqrt m)) - 1\<bar> \<le> 1 / 2 ^ 50"
proof -
  define u :: real where "u = 1 / 2 ^ 53"
  define s where "s = Math_sqrt m"
  define p where "p = dmul s s"
  define r where "r = ddiv m p"
  have rt: "0 < sqrt m" using assms by simp
  have s_lo: "sqrt m * (1 - u) \<le> s" and s_hi: "s \<le> sqrt m * (1 + u)"
    unfolding s_def Math_sqrt_def u_def
    using roundToDouble_lower [of "sqrt m"] roundToDouble_upper [of "sqrt m"] rt by simp_all
  have u: "0 < u" "u < 1" by (simp_all add: u_def)
  have s_pos: "0 < s" unfolding s_def Math_sqrt_def using rt by (rule roundToDouble_pos)
  have ss_lo: "m * (1 - u)\<^sup>2 \<le> s * s"
  proof -
    have "(sqrt m * (1 - u)) * (sqrt m * (1 - u)) \<le> s * s"
      using s_lo rt u s_pos by (intro mult_mono) auto
    then show ?thesis using assms by (simp add: power2_eq_square algebra_simps)
  qed
  have ss_hi: "s * s \<le> m * (1 + u)\<^sup>2"
  proof -
    have "s * s \<le> (sqrt m * (1 + u)) * (sqrt m * (1 + u))"
      using s_hi s_pos by (intro mult_mono) auto
    then show ?thesis using assms by (simp add: power2_eq_square algebra_simps)
  qed
  have ss_pos: "0 < s * s" using s_pos by simp
  have p_lo: "s * s * (1 - u) \<le> p" and p_hi: "p \<le> s * s * (1 + u)"
    unfolding p_def dmul_def u_def
    using roundToDouble_lower [of "s * s"] roundToDouble_upper [of "s * s"] ss_pos by simp_all
  have p_pos: "0 < p" unfolding p_def dmul_def using ss_pos by (rule roundToDouble_pos)
  have p_lo': "m * ((1 - u)\<^sup>2 * (1 - u)) \<le> p"
  proof -
    have "m * (1 - u)\<^sup>2 * (1 - u) \<le> s * s * (1 - u)"
      using ss_lo u by (intro mult_right_mono) auto
    then show ?thesis using p_lo by (simp add: mult.assoc)
  qed
  have p_hi': "p \<le> m * ((1 + u)\<^sup>2 * (1 + u))"
  proof -
    have "s * s * (1 + u) \<le> m * (1 + u)\<^sup>2 * (1 + u)"
      using ss_hi u by (intro mult_right_mono) auto
    then show ?thesis using p_hi by (simp add: mult.assoc)
  qed
  have mp_pos: "0 < m / p" using assms p_pos by simp
  have r_lo: "m / p * (1 - u) \<le> r" and r_hi: "r \<le> m / p * (1 + u)"
    unfolding r_def ddiv_def u_def
    using roundToDouble_lower [of "m / p"] roundToDouble_upper [of "m / p"] mp_pos by simp_all
  have c1: "0 < (1 - u)\<^sup>2 * (1 - u)" and c2: "0 < (1 + u)\<^sup>2 * (1 + u)"
    using u by (auto intro!: mult_pos_pos)
  have mp_hi: "m / p \<le> 1 / ((1 - u)\<^sup>2 * (1 - u))"
  proof -
    have "m / p \<le> m / (m * ((1 - u)\<^sup>2 * (1 - u)))"
      using p_lo' assms c1 p_pos by (intro divide_left_mono) (auto intro!: mult_pos_pos)
    then show ?thesis using assms by simp
  qed
  have mp_lo: "1 / ((1 + u)\<^sup>2 * (1 + u)) \<le> m / p"
  proof -
    have "m / (m * ((1 + u)\<^sup>2 * (1 + u))) \<le> m / p"
      using p_hi' assms p_pos by (intro divide_left_mono) (auto intro!: mult_pos_pos)
    then show ?thesis using assms by simp
  qed
  have "r \<le> 1 / ((1 - u)\<^sup>2 * (1 - u)) * (1 + u)"
    using r_hi mp_hi u by (meson less_eq_real_def mult_right_mono order_trans add_pos_pos zero_less_one)
  also have "\<dots> \<le> 1 + 1 / 2 ^ 50" unfolding u_def by (simp add: power2_eq_square)
  finally have hi: "r \<le> 1 + 1 / 2 ^ 50" .
  have "1 - 1 / 2 ^ 50 \<le> 1 / ((1 + u)\<^sup>2 * (1 + u)) * (1 - u)"
    unfolding u_def by (simp add: power2_eq_square)
  also have "\<dots> \<le> m / p * (1 - u)"
    using mp_lo u by (intro mult_right_mono) auto
  also have "\<dots> \<le> r" by (rule r_lo)
  finally have lo: "1 - 1 / 2 ^ 50 \<le> r" .
  have "\<bar>r - 1\<bar> \<le> 1 / 2 ^ 50" using lo hi by (simp only: abs_le_iff) linarith
  then show ?thesis unfolding r_def p_def s_def .
qed

subsection \<open>The links of the pair loop\<close>

lemma hasLink_linkStep_mono: "hasLink g a b s \<Longrightarrow> hasLink (linkStep vecs p q g) a b s"
  by (rule linkStep_cases [of vecs p q g]) (simp_all add: hasLink_pushLink)

lemma hasLink_inner_mono:
  "hasLink g a b s \<Longrightarrow> hasLink (fold (\<lambda>j g'. linkStep vecs p (fp ! j) g') js g) a b s"
  by (rule fold_invariant) (simp_all add: hasLink_linkStep_mono)

lemma hasLink_outer_mono:
  "hasLink g a b s \<Longrightarrow>
   hasLink (fold (\<lambda>i g. fold (\<lambda>j g'. linkStep vecs (fp ! i) (fp ! j) g') (js i) g) is g) a b s"
  by (rule fold_invariant) (simp_all add: hasLink_inner_mono)

lemma linkStep_links:
  assumes "map_of vecs p = Some va" and "map_of vecs q = Some vb"
    and "calculateCosineSimilarity va vb > roundToDouble 0.01"
  shows "hasLink (linkStep vecs p q g) p q (calculateCosineSimilarity va vb) \<and>
         hasLink (linkStep vecs p q g) q p (calculateCosineSimilarity va vb)"
  using assms by (simp add: linkStep_def Let_def hasLink_pushLink del: divide_numeral_1)

lemma upt_split: "a \<le> i \<Longrightarrow> i < n \<Longrightarrow> [a ..< n] = [a ..< i] @ i # [Suc i ..< n]"
  using upt_add_eq_append [of a i "n - i"] upt_conv_Cons [of i n] by simp

lemma linkAll_complete:
  assumes ij: "i < j" "j < length fp"
    and va: "map_of vecs (fp ! i) = Some va" and vb: "map_of vecs (fp ! j) = Some vb"
    and gt: "calculateCosineSimilarity va vb > roundToDouble 0.01"
  shows "hasLink (linkAll vecs fp) (fp ! i) (fp ! j) (calculateCosineSimilarity va vb) \<and>
         hasLink (linkAll vecs fp) (fp ! j) (fp ! i) (calculateCosineSimilarity va vb)"
proof -
  let ?c = "calculateCosineSimilarity va vb"
  let ?inner = "\<lambda>i js g. fold (\<lambda>j g'. linkStep vecs (fp ! i) (fp ! j) g') js g"
  let ?outer = "\<lambda>is g. fold (\<lambda>i g. ?inner i [i + 1 ..< length fp] g) is g"
  have outer_split: "[0 ..< length fp] = [0 ..< i] @ i # [Suc i ..< length fp]"
    using ij by (intro upt_split) auto
  have inner_split: "[i + 1 ..< length fp] = [i + 1 ..< j] @ j # [Suc j ..< length fp]"
    using ij by (intro upt_split) auto
  define g0 where "g0 = ?outer [0 ..< i] []"
  define g1 where "g1 = ?inner i [i + 1 ..< j] g0"
  define g2 where "g2 = linkStep vecs (fp ! i) (fp ! j) g1"
  define g3 where "g3 = ?inner i [Suc j ..< length fp] g2"
  have g3: "?inner i [i + 1 ..< length fp] g0 = g3"
    unfolding inner_split g3_def g2_def g1_def by simp
  have all: "linkAll vecs fp = ?outer [Suc i ..< length fp] g3"
    unfolding linkAll_def outer_split g3 [symmetric] g0_def by simp
  have "hasLink g2 (fp ! i) (fp ! j) ?c \<and> hasLink g2 (fp ! j) (fp ! i) ?c"
    unfolding g2_def using va vb gt by (rule linkStep_links)
  then have "hasLink g3 (fp ! i) (fp ! j) ?c \<and> hasLink g3 (fp ! j) (fp ! i) ?c"
    unfolding g3_def by (simp add: hasLink_inner_mono)
  then show ?thesis unfolding all by (simp add: hasLink_outer_mono)
qed

lemma linkAll_sound:
  assumes "hasLink (linkAll vecs fp) p q s"
  shows "\<exists>va vb. map_of vecs p = Some va \<and> map_of vecs q = Some vb \<and>
           (s = calculateCosineSimilarity va vb \<or> s = calculateCosineSimilarity vb va) \<and>
           s > roundToDouble 0.01"
proof -
  obtain ls where ls: "map_of (linkAll vecs fp) p = Some ls"
    and l: "\<lparr>relatedPath = q, score = s\<rparr> \<in> set ls"
    using assms by (auto simp: hasLink_def split: option.splits)
  let ?Q = "\<lambda>p l. \<exists>va vb. map_of vecs p = Some va \<and> map_of vecs (relatedPath l) = Some vb \<and>
           (score l = calculateCosineSimilarity va vb \<or> score l = calculateCosineSimilarity vb va) \<and>
           score l > roundToDouble 0.01"
  have "?Q p \<lparr>relatedPath = q, score = s\<rparr>"
    by (rule linkAll_links [where Q = ?Q, OF _ ls l]) (auto simp del: divide_numeral_1)
  then show ?thesis by simp
qed

lemma link_score_above_threshold:
  assumes "map_of (buildSemanticGraph fs) p = Some links" and "l \<in> set links"
  shows "score l > 0.01"
proof -
  obtain ls where ls: "map_of (linkAll (tfidfVectorsOf fs) (map fst fs)) p = Some ls" "l \<in> set ls"
    using buildSemanticGraph_links [OF assms] by blast
  have "score l > roundToDouble 0.01"
    by (rule linkAll_links [where Q = "\<lambda>p l. score l > roundToDouble 0.01", OF _ ls])
       (simp del: divide_numeral_1)
  then show ?thesis unfolding roundToDouble_threshold by simp
qed

subsection \<open>The weights of identical summaries\<close>

lemma ddiv_self: "x \<noteq> 0 \<Longrightarrow> ddiv x x = 1"
  by (simp add: ddiv_def roundToDouble_one)

lemma Math_log_one: "Math_log 1 = 0"
  by (simp add: Math_log_def)

lemma dmul_zero_right: "dmul x 0 = 0"
  by (simp add: dmul_def)

lemma ddiv_gt_one:
  assumes "0 < d" and "d < n" and "n < 2 ^ 53"
  shows "1 < ddiv (real n) (real d)"
proof -
  define u :: real where "u = 1 / 2 ^ 53"
  have "real n < 2 ^ 53" using assms(3) by (metis of_nat_less_iff of_nat_numeral of_nat_power)
  then have "real n * u < 1" by (simp add: u_def)
  moreover have "real d + 1 \<le> real n" using assms(2) by linarith
  ultimately have "real d < real n * (1 - u)" by (simp add: algebra_simps)
  then have "1 < real n * (1 - u) / real d" using assms(1) by simp
  also have "\<dots> = real n / real d * (1 - u)" by simp
  also have "\<dots> \<le> roundToDouble (real n / real d)"
    unfolding u_def by (rule roundToDouble_lower) simp
  finally show ?thesis by (simp add: ddiv_def)
qed

lemma Math_log_pos: "1 < x \<Longrightarrow> 0 < Math_log x"
  unfolding Math_log_def by (rule roundToDouble_pos) simp

lemma dmul_pos: "0 < x \<Longrightarrow> 0 < y \<Longrightarrow> 0 < dmul x y"
  unfolding dmul_def by (rule roundToDouble_pos) simp

lemma keys_tfidfVectorOf:
  "fst ` set (tfidfVectorOf n dfMap (termFrequenciesOf s)) = fst ` set (termFrequenciesOf s)"
proof -
  have "dom (map_of (tfidfVectorOf n dfMap (termFrequenciesOf s))) = dom (map_of (termFrequenciesOf s))"
    by (auto simp: map_of_tfidfVectorOf dom_def)
  then show ?thesis by (simp add: dom_map_of_conv_image_fst)
qed

lemma length_filter_eq_length: "length (filter P xs) = length xs \<longleftrightarrow> (\<forall>x \<in> set xs. P x)"
proof (induction xs)
  case Nil
  then show ?case by simp
next
  case (Cons x xs)
  have "length (filter P xs) \<le> length xs" by simp
  then have "length (filter P xs) \<noteq> Suc (length xs)" by linarith
  then show ?case using Cons by auto
qed

lemma documentFrequency_le: "countOf (snd (tfdfMaps fs)) t \<le> length fs"
  unfolding documentFrequency_count using length_filter_le [of _ "map fst fs"] by simp

lemma documentFrequency_all:
  assumes "distinct (map fst fs)"
  shows "countOf (snd (tfdfMaps fs)) t = length fs \<longleftrightarrow> occursInEveryDocument fs t"
proof -
  have "countOf (snd (tfdfMaps fs)) t = length (map fst fs) \<longleftrightarrow>
        (\<forall>p \<in> set (map fst fs). t \<in> fst ` set (termFrequenciesOf
                (case map_of fs p of None \<Rightarrow> [] | Some s \<Rightarrow> s)))"
    unfolding documentFrequency_count by (rule length_filter_eq_length)
  also have "\<dots> \<longleftrightarrow> (\<forall>(p, s) \<in> set fs. t \<in> fst ` set (termFrequenciesOf s))"
  proof (intro iffI ballI)
    fix x
    assume a: "\<forall>p \<in> set (map fst fs). t \<in> fst ` set (termFrequenciesOf
                (case map_of fs p of None \<Rightarrow> [] | Some s \<Rightarrow> s))"
      and x: "x \<in> set fs"
    have "map_of fs (fst x) = Some (snd x)" using assms x by simp
    moreover have "fst x \<in> set (map fst fs)" using x by simp
    ultimately have "t \<in> fst ` set (termFrequenciesOf (snd x))" using a by fastforce
    then show "case x of (p, s) \<Rightarrow> t \<in> fst ` set (termFrequenciesOf s)"
      by (simp add: case_prod_unfold)
  next
    fix p
    assume a: "\<forall>(p, s) \<in> set fs. t \<in> fst ` set (termFrequenciesOf s)"
      and p: "p \<in> set (map fst fs)"
    then obtain s where s: "(p, s) \<in> set fs" by auto
    then have "map_of fs p = Some s" using assms by simp
    moreover have "t \<in> fst ` set (termFrequenciesOf s)" using a s by blast
    ultimately show "t \<in> fst ` set (termFrequenciesOf
                (case map_of fs p of None \<Rightarrow> [] | Some s \<Rightarrow> s))" by simp
  qed
  finally show ?thesis
    by (simp add: occursInEveryDocument_def survivingTerms_def list_all_iff case_prod_unfold)
qed

lemma documentFrequency_pos:
  assumes "map_of fs p = Some s" and "t \<in> fst ` set (termFrequenciesOf s)"
  shows "0 < countOf (snd (tfdfMaps fs)) t"
proof -
  have "p \<in> set (filter (\<lambda>p. t \<in> fst ` set (termFrequenciesOf
                (case map_of fs p of None \<Rightarrow> [] | Some s \<Rightarrow> s))) (map fst fs))"
    using assms by (auto dest: map_of_SomeD intro!: image_eqI [where x = "(p, s)"])
  then show ?thesis unfolding documentFrequency_count by (rule length_pos_if_in_set)
qed

lemma weight_zero_or_positive:
  assumes d: "distinct (map fst fs)" and n: "length fs < 2 ^ 53"
    and s: "map_of fs p = Some summary"
    and t: "map_of (termFrequenciesOf summary) t = Some k"
  shows "map_of (tfidfVectorOf (length fs) (snd (tfdfMaps fs)) (termFrequenciesOf summary)) t =
           Some (dmul (real k) (Math_log (ddiv (real (length fs)) (real (countOf (snd (tfdfMaps fs)) t)))))"
    and "occursInEveryDocument fs t \<Longrightarrow>
           dmul (real k) (Math_log (ddiv (real (length fs)) (real (countOf (snd (tfdfMaps fs)) t)))) = 0"
    and "\<not> occursInEveryDocument fs t \<Longrightarrow>
           0 < dmul (real k) (Math_log (ddiv (real (length fs)) (real (countOf (snd (tfdfMaps fs)) t))))"
proof -
  let ?df = "countOf (snd (tfdfMaps fs)) t"
  have key: "t \<in> fst ` set (termFrequenciesOf summary)"
    using t by (auto dest: map_of_SomeD intro!: image_eqI [where x = "(t, k)"])
  have pos: "0 < ?df" using s key by (rule documentFrequency_pos)
  have k: "0 < k" using t by (rule termFrequenciesOf_pos)
  show "map_of (tfidfVectorOf (length fs) (snd (tfdfMaps fs)) (termFrequenciesOf summary)) t =
           Some (dmul (real k) (Math_log (ddiv (real (length fs)) (real ?df))))"
    using pos t by (simp add: map_of_tfidfVectorOf)
  show "dmul (real k) (Math_log (ddiv (real (length fs)) (real ?df))) = 0"
    if "occursInEveryDocument fs t"
  proof -
    have "?df = length fs" using that documentFrequency_all [OF d] by simp
    then show ?thesis using pos by (simp add: ddiv_self Math_log_one dmul_zero_right)
  qed
  show "0 < dmul (real k) (Math_log (ddiv (real (length fs)) (real ?df)))"
    if "\<not> occursInEveryDocument fs t"
  proof -
    have "?df \<noteq> length fs" using that documentFrequency_all [OF d] by simp
    then have "?df < length fs" using documentFrequency_le [of fs t] by simp
    then have "1 < ddiv (real (length fs)) (real ?df)" using pos n by (intro ddiv_gt_one) auto
    then have "0 < Math_log (ddiv (real (length fs)) (real ?df))" by (rule Math_log_pos)
    then show ?thesis using k by (intro dmul_pos) auto
  qed
qed

lemma self_similarity_cases:
  assumes d: "distinct (map fst fs)" and n: "length fs < 2 ^ 53"
    and s: "map_of fs p = Some summary"
  defines "v \<equiv> tfidfVectorOf (length fs) (snd (tfdfMaps fs)) (termFrequenciesOf summary)"
  shows "list_all (occursInEveryDocument fs) (survivingTerms summary) \<Longrightarrow>
           calculateCosineSimilarity v v = 0"
    and "\<not> list_all (occursInEveryDocument fs) (survivingTerms summary) \<Longrightarrow>
           \<bar>calculateCosineSimilarity v v - 1\<bar> \<le> 1 / 2 ^ 50"
proof -
  let ?w = "\<lambda>t. case map_of v t of None \<Rightarrow> 0 | Some x \<Rightarrow> x"
  let ?ts = "jsSetOf (jsSetOf (map fst v) @ jsSetOf (map fst v))"
  have ts: "set ?ts = set (survivingTerms summary)"
    by (simp add: v_def keys_tfidfVectorOf survivingTerms_def)
  have tf: "\<exists>k. map_of (termFrequenciesOf summary) t = Some k" if "t \<in> set (survivingTerms summary)" for t
    using that by (simp add: survivingTerms_def) (metis map_of_eq_None_iff not_Some_eq)
  show "calculateCosineSimilarity v v = 0"
    if all: "list_all (occursInEveryDocument fs) (survivingTerms summary)"
  proof -
    have "?w t = 0" if "t \<in> set ?ts" for t
    proof -
      have t: "t \<in> set (survivingTerms summary)" using that ts by simp
      then obtain k where k: "map_of (termFrequenciesOf summary) t = Some k" using tf by blast
      have "occursInEveryDocument fs t" using all t by (simp add: list_all_iff)
      then show ?thesis
        using weight_zero_or_positive(1,2) [OF d n s k] by (simp add: v_def)
    qed
    then have "squaredMagnitude ?w ?ts 0 = 0" by (rule squaredMagnitude_zero)
    then show ?thesis by (simp add: calculateCosineSimilarity_same)
  qed
  show "\<bar>calculateCosineSimilarity v v - 1\<bar> \<le> 1 / 2 ^ 50"
    if some: "\<not> list_all (occursInEveryDocument fs) (survivingTerms summary)"
  proof -
    obtain t where t: "t \<in> set (survivingTerms summary)" and rare: "\<not> occursInEveryDocument fs t"
      using some by (auto simp: list_all_iff)
    obtain k where k: "map_of (termFrequenciesOf summary) t = Some k" using tf t by blast
    have "0 < ?w t"
      using weight_zero_or_positive(1,3) [OF d n s k] rare by (simp add: v_def)
    then have "?w t \<noteq> 0" by simp
    moreover have "t \<in> set ?ts" using t ts by simp
    ultimately have m: "0 < squaredMagnitude ?w ?ts 0"
      by (intro squaredMagnitude_pos [where t = t]) auto
    show ?thesis
      unfolding calculateCosineSimilarity_same Let_def
      using m self_cosine_near_one [OF m] by simp
  qed
qed

subsection \<open>Doubles from their significands, and the logarithm of 3/2\<close>

lemma roundToDouble_near_nat:
  fixes k :: int and n :: nat
  assumes "2 ^ 52 < k" and "k < 2 ^ 53" and "\<bar>x * 2 ^ n - of_int k\<bar> < 1/2"
  shows "roundToDouble x = of_int k / 2 ^ n"
proof -
  define e :: int where "e = 52 - int n"
  have q: "2 powr (of_int e - 52) = 1 / (2 ^ n :: real)"
    by (simp add: e_def powr_minus powr_realpow inverse_eq_divide)
  have k1: "(2 ^ 52 :: real) + 1 \<le> of_int k"
  proof -
    have "(2 ^ 52 :: int) + 1 \<le> k" using assms(1) by simp
    then have "(of_int ((2 ^ 52 :: int) + 1) :: real) \<le> of_int k" by (simp only: of_int_le_iff)
    then show ?thesis by simp
  qed
  have k2: "of_int k + 1 \<le> (2 ^ 53 :: real)"
  proof -
    have "k + 1 \<le> (2 ^ 53 :: int)" using assms(2) by simp
    then have "(of_int (k + 1) :: real) \<le> of_int (2 ^ 53 :: int)" by (simp only: of_int_le_iff)
    then show ?thesis by simp
  qed
  have lo: "2 ^ 52 \<le> x * 2 ^ n" and hi: "x * 2 ^ n < 2 ^ 53"
    using assms(3) k1 k2 unfolding abs_less_iff by linarith+
  have pw: "(2::real) powr of_int e = 2 ^ 52 / 2 ^ n"
    by (simp add: e_def powr_diff powr_realpow powr_numeral)
  have x: "0 < x"
  proof -
    have "0 < x * 2 ^ n" using lo by (rule less_le_trans [rotated]) simp
    then show ?thesis by (simp add: zero_less_mult_iff)
  qed
  have "roundToDouble x = of_int k * 2 powr (of_int e - 52)"
  proof (rule roundToDouble_eqI [OF x])
    show "2 powr of_int e \<le> x" unfolding pw using lo by (simp add: field_simps)
    show "x < 2 powr (of_int e + 1)"
      using hi by (simp add: powr_add pw field_simps)
    show "roundHalfEven (x / 2 powr (of_int e - 52)) = k"
      unfolding q using assms(3) by (intro roundHalfEven_near) simp
  qed
  then show ?thesis unfolding q by simp
qed

lemma roundToDouble_tie_nat:
  fixes k :: int and n :: nat
  assumes "2 ^ 52 < k" and "k < 2 ^ 53" and "x * 2 ^ n = of_int k + 1/2" and "even k"
  shows "roundToDouble x = of_int k / 2 ^ n"
proof -
  define e :: int where "e = 52 - int n"
  have q: "2 powr (of_int e - 52) = 1 / (2 ^ n :: real)"
    by (simp add: e_def powr_minus powr_realpow inverse_eq_divide)
  have k1: "(2 ^ 52 :: real) + 1 \<le> of_int k"
  proof -
    have "(2 ^ 52 :: int) + 1 \<le> k" using assms(1) by simp
    then have "(of_int ((2 ^ 52 :: int) + 1) :: real) \<le> of_int k" by (simp only: of_int_le_iff)
    then show ?thesis by simp
  qed
  have k2: "of_int k + 1 \<le> (2 ^ 53 :: real)"
  proof -
    have "k + 1 \<le> (2 ^ 53 :: int)" using assms(2) by simp
    then have "(of_int (k + 1) :: real) \<le> of_int (2 ^ 53 :: int)" by (simp only: of_int_le_iff)
    then show ?thesis by simp
  qed
  have lo: "2 ^ 52 \<le> x * 2 ^ n" and hi: "x * 2 ^ n < 2 ^ 53"
    using assms(3) k1 k2 by linarith+
  have pw: "(2::real) powr of_int e = 2 ^ 52 / 2 ^ n"
    by (simp add: e_def powr_diff powr_realpow powr_numeral)
  have x: "0 < x"
  proof -
    have "0 < x * 2 ^ n" using lo by (rule less_le_trans [rotated]) simp
    then show ?thesis by (simp add: zero_less_mult_iff)
  qed
  have "roundToDouble x = of_int k * 2 powr (of_int e - 52)"
  proof (rule roundToDouble_eqI [OF x])
    show "2 powr of_int e \<le> x" unfolding pw using lo by (simp add: field_simps)
    show "x < 2 powr (of_int e + 1)"
      using hi by (simp add: powr_add pw field_simps)
    show "roundHalfEven (x / 2 powr (of_int e - 52)) = k"
      unfolding q using assms(3,4) by (intro roundHalfEven_tie_even) simp_all
  qed
  then show ?thesis unfolding q by simp
qed

lemma exp_partial_sum_le:
  assumes "0 \<le> (x::real)"
  shows "(\<Sum>m<n. x ^ m / fact m) \<le> exp x"
proof -
  have "(\<Sum>m<n. x ^ m /\<^sub>R fact m) \<le> (\<Sum>m. x ^ m /\<^sub>R fact m)"
    using assms by (intro sum_le_suminf summable_exp_generic) auto
  then show ?thesis by (simp add: exp_def divide_inverse mult.commute)
qed

lemma exp_le_partial_sum:
  assumes "0 \<le> (x::real)" and "x \<le> 1"
  shows "exp x \<le> (\<Sum>m<n. x ^ m / fact m) + 3 * x ^ n / fact n"
proof -
  obtain t where t: "\<bar>t\<bar> \<le> \<bar>x\<bar>" and e: "exp x = (\<Sum>m<n. x ^ m / fact m) + exp t / fact n * x ^ n"
    using Maclaurin_exp_le [of x n] by blast
  have "exp t \<le> exp 1" using t assms by simp
  also have "\<dots> \<le> 3" by (rule exp_le)
  finally have "exp t / fact n * x ^ n \<le> 3 / fact n * x ^ n"
    using assms by (intro mult_right_mono divide_right_mono) auto
  then show ?thesis unfolding e by simp
qed

lemma exp_taylor_horner:
  fixes x :: real
  shows "(\<Sum>m<18. x ^ m / fact m) =
     (1 + x * (1 + x / 2 * (1 + x / 3 * (1 + x / 4 * (1 + x / 5 * (1 + x / 6 * (1 + x / 7 * (1 + x / 8 * (1 + x / 9 * (1 + x / 10 * (1 + x / 11 * (1 + x / 12 * (1 + x / 13 * (1 + x / 14 * (1 + x / 15 * (1 + x / 16 * (1 + x / 17)))))))))))))))))"
  by (simp add: eval_nat_numeral lessThan_Suc field_simps)

lemma ln_three_halves_lower: "14608420078301335 / 2 ^ 55 < ln (3/2 :: real)"
proof -
  let ?lo = "14608420078301335 / 2 ^ 55 :: real"
  have "exp ?lo \<le> (\<Sum>m<18. ?lo ^ m / fact m) + 3 * ?lo ^ 18 / fact 18"
    by (rule exp_le_partial_sum) simp_all
  also have "\<dots> < 3/2"
    unfolding exp_taylor_horner by (simp add: fact_numeral power_divide)
  finally have "exp ?lo < exp (ln (3/2))" by simp
  then show ?thesis by (rule exp_less_cancel_iff [THEN iffD1])
qed

lemma ln_three_halves_upper: "ln (3/2 :: real) < 14608420078301337 / 2 ^ 55"
proof -
  let ?hi = "14608420078301337 / 2 ^ 55 :: real"
  have "3/2 < (\<Sum>m<18. ?hi ^ m / fact m)"
    unfolding exp_taylor_horner by simp
  also have "\<dots> \<le> exp ?hi" by (rule exp_partial_sum_le) simp
  finally have "exp (ln (3/2)) < exp ?hi" by simp
  then show ?thesis by (rule exp_less_cancel_iff [THEN iffD1])
qed

lemma ddiv_3_2: "ddiv 3 2 = 3 / 2"
  unfolding ddiv_def
  by (subst roundToDouble_near_nat [where k = 6755399441055744 and n = 52]) simp_all

lemma Math_log_three_halves: "Math_log (3 / 2) = 7304210039150668 / 2 ^ 54"
proof -
  have "\<bar>ln (3/2 :: real) * 2 ^ 54 - of_int 7304210039150668\<bar> < 1/2"
    using ln_three_halves_lower ln_three_halves_upper unfolding abs_less_iff by simp
  then show ?thesis
    unfolding Math_log_def
    by (subst roundToDouble_near_nat [where k = 7304210039150668 and n = 54]) simp_all
qed

lemma weight_alpha: "dmul 1 (7304210039150668 / 2 ^ 54) = 7304210039150668 / 2 ^ 54"
  unfolding dmul_def
  by (subst roundToDouble_near_nat [where k = 7304210039150668 and n = 54]) simp_all

lemma weight_beta: "dmul 2 (7304210039150668 / 2 ^ 54) = 7304210039150668 / 2 ^ 53"
  unfolding dmul_def
  by (subst roundToDouble_near_nat [where k = 7304210039150668 and n = 53]) simp_all

lemma square_alpha:
  "dmul (7304210039150668 / 2 ^ 54) (7304210039150668 / 2 ^ 54) = 5923204626337930 / 2 ^ 55"
  unfolding dmul_def
  by (subst roundToDouble_near_nat [where k = 5923204626337930 and n = 55]) simp_all

lemma square_beta:
  "dmul (7304210039150668 / 2 ^ 53) (7304210039150668 / 2 ^ 53) = 5923204626337930 / 2 ^ 53"
  unfolding dmul_def
  by (subst roundToDouble_near_nat [where k = 5923204626337930 and n = 53]) simp_all

lemma sum_first: "dadd 0 (5923204626337930 / 2 ^ 55) = 5923204626337930 / 2 ^ 55"
  unfolding dadd_def
  by (subst roundToDouble_near_nat [where k = 5923204626337930 and n = 55]) simp_all

lemma sum_second:
  "dadd (5923204626337930 / 2 ^ 55) (5923204626337930 / 2 ^ 53) = 7404005782922412 / 2 ^ 53"
  unfolding dadd_def
  by (subst roundToDouble_tie_nat [where k = 7404005782922412 and n = 53]) simp_all

lemma sqrt_magnitude: "Math_sqrt (7404005782922412 / 2 ^ 53) = 8166355084738646 / 2 ^ 53"
proof -
  let ?m = "7404005782922412 / 2 ^ 53 :: real"
  have "(16332710169477291 / 2 ^ 54)\<^sup>2 < ?m" by (simp add: power2_eq_square)
  then have lo: "16332710169477291 / 2 ^ 54 < sqrt ?m" by (rule real_less_rsqrt)
  have "?m < (16332710169477293 / 2 ^ 54)\<^sup>2" by (simp add: power2_eq_square)
  then have hi: "sqrt ?m < 16332710169477293 / 2 ^ 54" by (intro real_less_lsqrt) simp_all
  have "\<bar>sqrt ?m * 2 ^ 53 - of_int 8166355084738646\<bar> < 1/2"
    using lo hi unfolding abs_less_iff by simp
  then show ?thesis
    unfolding Math_sqrt_def
    by (subst roundToDouble_near_nat [where k = 8166355084738646 and n = 53]) simp_all
qed

lemma square_root:
  "dmul (8166355084738646 / 2 ^ 53) (8166355084738646 / 2 ^ 53) = 7404005782922411 / 2 ^ 53"
  unfolding dmul_def
  by (subst roundToDouble_near_nat [where k = 7404005782922411 and n = 53]) simp_all

lemma quotient_above_one:
  "ddiv (7404005782922412 / 2 ^ 53) (7404005782922411 / 2 ^ 53) = 4503599627370497 / 2 ^ 52"
  unfolding ddiv_def
  by (subst roundToDouble_near_nat [where k = 4503599627370497 and n = 52]) simp_all

subsection \<open>A corpus of three documents, two of them alike\<close>

lemma tf_login: "termFrequenciesOf ''login'' = [(''login'', 1)]"
  by code_simp

lemma tf_alpha_beta: "termFrequenciesOf ''alpha beta beta'' = [(''alpha'', 1), (''beta'', 2)]"
  by code_simp

lemma tf_zeta: "termFrequenciesOf ''zeta'' = [(''zeta'', 1)]"
  by code_simp

lemma tfdfMaps_rounding:
  "tfdfMaps [(''a.ts'', ''alpha beta beta''), (''b.ts'', ''alpha beta beta''), (''c.ts'', ''zeta'')] =
     ([(''a.ts'', [(''alpha'', 1), (''beta'', 2)]), (''b.ts'', [(''alpha'', 1), (''beta'', 2)]),
       (''c.ts'', [(''zeta'', 1)])],
      [(''alpha'', 2), (''beta'', 2), (''zeta'', 1)])"
  by (simp add: tfdfMaps_def tfdfStep_def tf_alpha_beta tf_zeta jsSetOf_def countDocument_def Let_def)

lemma tfidfVectorsOf_rounding_symbolic:
  "tfidfVectorsOf [(''a.ts'', ''alpha beta beta''), (''b.ts'', ''alpha beta beta''), (''c.ts'', ''zeta'')] =
     [(''a.ts'', [(''alpha'', dmul 1 (Math_log (ddiv 3 2))), (''beta'', dmul 2 (Math_log (ddiv 3 2)))]),
      (''b.ts'', [(''alpha'', dmul 1 (Math_log (ddiv 3 2))), (''beta'', dmul 2 (Math_log (ddiv 3 2)))]),
      (''c.ts'', [(''zeta'', dmul 1 (Math_log (ddiv 3 1)))])]"
  unfolding tfidfVectorsOf_def tfdfMaps_rounding
  by (simp add: tfidfStep_def tfidfVectorOf_def Let_def)

lemma tfidfVectorsOf_rounding:
  "tfidfVectorsOf [(''a.ts'', ''alpha beta beta''), (''b.ts'', ''alpha beta beta''), (''c.ts'', ''zeta'')] =
     [(''a.ts'', [(''alpha'', 7304210039150668 / 2 ^ 54), (''beta'', 7304210039150668 / 2 ^ 53)]),
      (''b.ts'', [(''alpha'', 7304210039150668 / 2 ^ 54), (''beta'', 7304210039150668 / 2 ^ 53)]),
      (''c.ts'', [(''zeta'', dmul 1 (Math_log (ddiv 3 1)))])]"
  unfolding tfidfVectorsOf_rounding_symbolic
  by (simp only: ddiv_3_2 Math_log_three_halves weight_alpha weight_beta)

lemma cosine_two_terms:
  "ta \<noteq> tb \<Longrightarrow>
   calculateCosineSimilarity [(ta, a), (tb, b)] [(ta, a), (tb, b)] =
     (let m = dadd (dadd 0 (dmul a a)) (dmul b b)
      in if m = 0 then 0 else ddiv m (dmul (Math_sqrt m) (Math_sqrt m)))"
  by (simp add: calculateCosineSimilarity_def jsSetOf_def Let_def)

lemma cosine_disjoint:
  "tc \<noteq> ta \<Longrightarrow> tc \<noteq> tb \<Longrightarrow> ta \<noteq> tb \<Longrightarrow>
   calculateCosineSimilarity [(ta, a), (tb, b)] [(tc, c)] = 0"
  by (simp add: calculateCosineSimilarity_def jsSetOf_def Let_def dmul_def dadd_def ddiv_def)

lemma cosine_rounding:
  "calculateCosineSimilarity
     [(''alpha'', 7304210039150668 / 2 ^ 54), (''beta'', 7304210039150668 / 2 ^ 53)]
     [(''alpha'', 7304210039150668 / 2 ^ 54), (''beta'', 7304210039150668 / 2 ^ 53)]
   = 4503599627370497 / 2 ^ 52"
proof -
  have ne: "(7404005782922412 / 2 ^ 53 :: real) \<noteq> 0" by simp
  have "calculateCosineSimilarity
     [(''alpha'', 7304210039150668 / 2 ^ 54), (''beta'', 7304210039150668 / 2 ^ 53)]
     [(''alpha'', 7304210039150668 / 2 ^ 54), (''beta'', 7304210039150668 / 2 ^ 53)]
    = ddiv (7404005782922412 / 2 ^ 53)
        (dmul (Math_sqrt (7404005782922412 / 2 ^ 53)) (Math_sqrt (7404005782922412 / 2 ^ 53)))"
    by (subst cosine_two_terms) (simp_all only: square_alpha square_beta sum_first sum_second Let_def ne if_False, simp)
  also have "\<dots> = 4503599627370497 / 2 ^ 52"
    by (simp only: sqrt_magnitude square_root quotient_above_one)
  finally show ?thesis .
qed

lemma threshold_below: "roundToDouble 0.01 < 4503599627370497 / 2 ^ 52"
  unfolding roundToDouble_threshold by simp

lemma threshold_positive: "0 < roundToDouble 0.01"
  unfolding roundToDouble_threshold by simp

lemma graph_of_three:
  assumes vecs: "tfidfVectorsOf [(pa, sa), (pb, sb), (pc, sc)] = [(pa, va), (pb, vb), (pc, vc)]"
    and ne: "pa \<noteq> pb" "pa \<noteq> pc" "pb \<noteq> pc"
    and ab: "calculateCosineSimilarity va vb = r" and r: "roundToDouble 0.01 < r"
    and ac: "calculateCosineSimilarity va vc = 0" and bc: "calculateCosineSimilarity vb vc = 0"
  shows "buildSemanticGraph [(pa, sa), (pb, sb), (pc, sc)] =
           [(pa, [\<lparr>relatedPath = pb, score = r\<rparr>]), (pb, [\<lparr>relatedPath = pa, score = r\<rparr>])]"
proof -
  have z: "\<not> roundToDouble 0.01 < 0" using threshold_positive by simp
  show ?thesis
    unfolding buildSemanticGraph_def Let_def vecs
    using ne r z
    by (simp add: linkAll_def linkStep_def ab ac bc pushLink_def sortLinks_def
                  sortBy_def upt_rec Let_def)
qed

lemma graph_rounding:
  "buildSemanticGraph [(''a.ts'', ''alpha beta beta''), (''b.ts'', ''alpha beta beta''), (''c.ts'', ''zeta'')] =
     [(''a.ts'', [\<lparr>relatedPath = ''b.ts'', score = 4503599627370497 / 2 ^ 52\<rparr>]),
      (''b.ts'', [\<lparr>relatedPath = ''a.ts'', score = 4503599627370497 / 2 ^ 52\<rparr>])]"
proof (rule graph_of_three)
  show "tfidfVectorsOf [(''a.ts'', ''alpha beta beta''), (''b.ts'', ''alpha beta beta''), (''c.ts'', ''zeta'')] =
     [(''a.ts'', [(''alpha'', 7304210039150668 / 2 ^ 54), (''beta'', 7304210039150668 / 2 ^ 53)]),
      (''b.ts'', [(''alpha'', 7304210039150668 / 2 ^ 54), (''beta'', 7304210039150668 / 2 ^ 53)]),
      (''c.ts'', [(''zeta'', dmul 1 (Math_log (ddiv 3 1)))])]"
    by (rule tfidfVectorsOf_rounding)
  show "calculateCosineSimilarity
     [(''alpha'', 7304210039150668 / 2 ^ 54), (''beta'', 7304210039150668 / 2 ^ 53)]
     [(''alpha'', 7304210039150668 / 2 ^ 54), (''beta'', 7304210039150668 / 2 ^ 53)]
   = 4503599627370497 / 2 ^ 52"
    by (rule cosine_rounding)
  show "roundToDouble 0.01 < 4503599627370497 / 2 ^ 52" by (rule threshold_below)
  show "calculateCosineSimilarity
     [(''alpha'', 7304210039150668 / 2 ^ 54), (''beta'', 7304210039150668 / 2 ^ 53)]
     [(''zeta'', dmul 1 (Math_log (ddiv 3 1)))] = 0"
    by (rule cosine_disjoint) simp_all
  then show "calculateCosineSimilarity
     [(''alpha'', 7304210039150668 / 2 ^ 54), (''beta'', 7304210039150668 / 2 ^ 53)]
     [(''zeta'', dmul 1 (Math_log (ddiv 3 1)))] = 0" .
qed simp_all

lemma tfidfVectorsOf_corpus2:
  "tfidfVectorsOf [(''a.ts'', ''login''), (''b.ts'', ''login'')] =
     [(''a.ts'', [(''login'', 0)]), (''b.ts'', [(''login'', 0)])]"
  by (simp add: tfidfVectorsOf_def tfdfMaps_def tfdfStep_def tf_login jsSetOf_def countDocument_def
        tfidfStep_def tfidfVectorOf_def Let_def ddiv_self Math_log_one dmul_zero_right)

lemma survivingTerms_alpha_beta: "survivingTerms ''alpha beta beta'' = [''alpha'', ''beta'']"
  by (simp add: survivingTerms_def tf_alpha_beta)

lemma survivingTerms_zeta: "survivingTerms ''zeta'' = [''zeta'']"
  by (simp add: survivingTerms_def tf_zeta)

lemma survivingTerms_login: "survivingTerms ''login'' = [''login'']"
  by (simp add: survivingTerms_def tf_login)

section \<open>The semantic graph: properties\<close>

text \<open>
  \<^bold>\<open>C4.\<close> For a mapping with fewer than two documents \<^const>\<open>buildSemanticGraph\<close> returns
  the empty map.
\<close>

theorem fewer_than_two_documents_empty:
  "length fileSummaries < 2 \<Longrightarrow> buildSemanticGraph fileSummaries = []"
  by (simp add: buildSemanticGraph_def)

theorem fewer_than_two_documents_empty_witness:
  "length [(''a.ts'', ''handles user login'')] < 2 \<and>
   buildSemanticGraph [(''a.ts'', ''handles user login'')] = []"
  using fewer_than_two_documents_empty [of "[(''a.ts'', ''handles user login'')]"] by simp

text \<open>
  \<^bold>\<open>C2.\<close> Links are symmetric: whenever the link list of \<open>pathA\<close> holds the entry
  \<open>{relatedPath: pathB, score: s}\<close>, the link list of \<open>pathB\<close> holds
  \<open>{relatedPath: pathA, score: s}\<close> with the same score. This holds for every input list,
  also one with repeated keys.
\<close>

theorem links_symmetric:
  assumes "map_of (buildSemanticGraph fileSummaries) pathA = Some linksA"
    and "\<lparr>relatedPath = pathB, score = s\<rparr> \<in> set linksA"
  shows "\<exists>linksB. map_of (buildSemanticGraph fileSummaries) pathB = Some linksB \<and>
           \<lparr>relatedPath = pathA, score = s\<rparr> \<in> set linksB"
proof -
  have "hasLink (buildSemanticGraph fileSummaries) pathA pathB s"
    using assms by (simp add: hasLink_def)
  then have "hasLink (buildSemanticGraph fileSummaries) pathB pathA s"
    by (auto simp: buildSemanticGraph_def Let_def hasLink_sortLinks hasLink_def [of "[]"]
          intro: hasLink_linkAll_symmetric split: if_splits)
  then show ?thesis by (auto simp: hasLink_def split: option.splits)
qed

theorem links_symmetric_witness:
  "map_of (buildSemanticGraph
      [(''a.ts'', ''alpha beta beta''), (''b.ts'', ''alpha beta beta''), (''c.ts'', ''zeta'')])
      ''a.ts'' = Some [\<lparr>relatedPath = ''b.ts'', score = 4503599627370497 / 2 ^ 52\<rparr>] \<and>
   (\<exists>linksB. map_of (buildSemanticGraph
      [(''a.ts'', ''alpha beta beta''), (''b.ts'', ''alpha beta beta''), (''c.ts'', ''zeta'')])
      ''b.ts'' = Some linksB \<and>
      \<lparr>relatedPath = ''a.ts'', score = 4503599627370497 / 2 ^ 52\<rparr> \<in> set linksB)"
proof -
  have a: "map_of (buildSemanticGraph
      [(''a.ts'', ''alpha beta beta''), (''b.ts'', ''alpha beta beta''), (''c.ts'', ''zeta'')])
      ''a.ts'' = Some [\<lparr>relatedPath = ''b.ts'', score = 4503599627370497 / 2 ^ 52\<rparr>]"
    unfolding graph_rounding by simp
  have "\<lparr>relatedPath = ''b.ts'', score = 4503599627370497 / 2 ^ 52\<rparr>
          \<in> set [\<lparr>relatedPath = ''b.ts'', score = 4503599627370497 / 2 ^ 52 :: real\<rparr>]"
    by simp
  from links_symmetric [OF a this] a show ?thesis by blast
qed

text \<open>
  \<^bold>\<open>C3.\<close> The claim is that every score lies above \<open>0.01\<close> and is at most \<open>1\<close>. The lower
  bound holds (\<open>link_score_above_threshold\<close>): it is the guard of the pair loop, and the double
  nearest to \<open>0.01\<close> is not below \<open>0.01\<close>. The upper bound does not hold of the doubles that
  the code stores. For the corpus \<^verbatim>\<open>a.ts\<close>, \<^verbatim>\<open>b.ts\<close> with the summary \<^verbatim>\<open>alpha beta beta\<close> and
  \<^verbatim>\<open>c.ts\<close> with \<^verbatim>\<open>zeta\<close>, both vectors are \<open>{alpha: L, beta: 2L}\<close> with \<open>L\<close> the double nearest
  to \<open>ln 1.5\<close>; the accumulated squared magnitude \<open>m\<close> is also the dot product, and the
  product of the two rounded square roots is one unit in the last place below \<open>m\<close>, so the
  quotient rounds to \<open>1 + 2\<^sup>-\<^sup>5\<^sup>2\<close>, printed \<^verbatim>\<open>1.0000000000000002\<close>. The documentation of
  \<^verbatim>\<open>calculateCosineSimilarity\<close> promises a score between 0 and 1; the quotient is not clamped.
\<close>

theorem link_score_exceeds_one:
  "buildSemanticGraph
      [(''a.ts'', ''alpha beta beta''), (''b.ts'', ''alpha beta beta''), (''c.ts'', ''zeta'')] =
     [(''a.ts'', [\<lparr>relatedPath = ''b.ts'', score = 4503599627370497 / 2 ^ 52\<rparr>]),
      (''b.ts'', [\<lparr>relatedPath = ''a.ts'', score = 4503599627370497 / 2 ^ 52\<rparr>])] \<and>
   score \<lparr>relatedPath = ''b.ts'', score = 4503599627370497 / 2 ^ 52\<rparr> > 1"
  unfolding graph_rounding by simp

text \<open>
  \<^bold>\<open>C10.\<close> For a corpus with distinct keys (a \<^verbatim>\<open>Map\<close>) the graph has no self-link, and every
  key of the graph and every \<open>relatedPath\<close> in it is a key of the corpus.
\<close>

theorem no_self_links_and_paths_from_corpus:
  assumes "distinct (map fst fileSummaries)"
  shows "fst ` set (buildSemanticGraph fileSummaries) \<subseteq> fst ` set fileSummaries \<and>
         (\<forall>path links l. map_of (buildSemanticGraph fileSummaries) path = Some links \<and> l \<in> set links
            \<longrightarrow> relatedPath l \<noteq> path \<and> relatedPath l \<in> fst ` set fileSummaries)"
proof (intro conjI allI impI)
  show "fst ` set (buildSemanticGraph fileSummaries) \<subseteq> fst ` set fileSummaries"
    using keys_linkAll [of "tfidfVectorsOf fileSummaries" "map fst fileSummaries"]
    by (simp add: buildSemanticGraph_def Let_def keys_sortLinks)
next
  fix path links l
  assume "map_of (buildSemanticGraph fileSummaries) path = Some links \<and> l \<in> set links"
  then obtain ls where ls:
    "map_of (linkAll (tfidfVectorsOf fileSummaries) (map fst fileSummaries)) path = Some ls" "l \<in> set ls"
    using buildSemanticGraph_links by blast
  have "relatedPath l \<noteq> path \<and> relatedPath l \<in> set (map fst fileSummaries)"
    using linkAll_no_self_link [OF assms ls] .
  then show "relatedPath l \<noteq> path" and "relatedPath l \<in> fst ` set fileSummaries" by simp_all
qed

theorem no_self_links_and_paths_from_corpus_witness:
  "distinct (map fst [(''a.ts'', ''alpha beta beta''), (''b.ts'', ''alpha beta beta''), (''c.ts'', ''zeta'')]) \<and>
   fst ` set (buildSemanticGraph
      [(''a.ts'', ''alpha beta beta''), (''b.ts'', ''alpha beta beta''), (''c.ts'', ''zeta'')])
     \<subseteq> fst ` set [(''a.ts'', ''alpha beta beta''), (''b.ts'', ''alpha beta beta''), (''c.ts'', ''zeta'')] \<and>
   map_of (buildSemanticGraph
      [(''a.ts'', ''alpha beta beta''), (''b.ts'', ''alpha beta beta''), (''c.ts'', ''zeta'')])
     ''a.ts'' = Some [\<lparr>relatedPath = ''b.ts'', score = 4503599627370497 / 2 ^ 52\<rparr>] \<and>
   relatedPath \<lparr>relatedPath = ''b.ts'', score = 4503599627370497 / 2 ^ 52 :: real\<rparr> \<noteq> ''a.ts'' \<and>
   relatedPath \<lparr>relatedPath = ''b.ts'', score = 4503599627370497 / 2 ^ 52 :: real\<rparr>
     \<in> fst ` set [(''a.ts'', ''alpha beta beta''), (''b.ts'', ''alpha beta beta''), (''c.ts'', ''zeta'')]"
proof -
  let ?corpus = "[(''a.ts'', ''alpha beta beta''), (''b.ts'', ''alpha beta beta''), (''c.ts'', ''zeta'')]"
  let ?l = "\<lparr>relatedPath = ''b.ts'', score = 4503599627370497 / 2 ^ 52 :: real\<rparr>"
  have d: "distinct (map fst ?corpus)" by simp
  have a: "map_of (buildSemanticGraph ?corpus) ''a.ts'' = Some [?l]"
    unfolding graph_rounding by simp
  have l: "?l \<in> set [?l]" by simp
  have "fst ` set (buildSemanticGraph ?corpus) \<subseteq> fst ` set ?corpus"
    and "relatedPath ?l \<noteq> ''a.ts'' \<and> relatedPath ?l \<in> fst ` set ?corpus"
    using no_self_links_and_paths_from_corpus [OF d] a l by (blast, blast)
  then show ?thesis using d a by blast
qed

text \<open>
  \<^bold>\<open>C5.\<close> Let two different paths of a corpus with distinct keys and fewer than \<open>2\<^sup>5\<^sup>3\<close>
  documents have the same summary; then both have the same vector. If every surviving term
  of the summary occurs in every document of the corpus (also when no term survives), every
  weight is \<open>tf * ln (N / N) = 0\<close>, the magnitude is \<open>0\<close>, the similarity is \<open>0\<close> by the guard of
  \<^const>\<open>calculateCosineSimilarity\<close>, and the graph has no link between the two paths.
  Otherwise the similarity differs from \<open>1\<close> by at most \<open>2\<^sup>-\<^sup>5\<^sup>0\<close>, and the graph links the two
  paths in both directions with it as the score. It need not be \<open>1\<close> itself: the last theorem
  below gives the corpus of exactly two identical documents, with similarity \<open>0\<close>, and a
  corpus of three documents where the similarity of the two identical ones is the double
  \<open>1 + 2\<^sup>-\<^sup>5\<^sup>2\<close>.
\<close>

theorem identical_summaries_similarity:
  assumes "distinct (map fst fileSummaries)" and "length fileSummaries < 2 ^ 53"
    and "map_of fileSummaries pathA = Some summary"
    and "map_of fileSummaries pathB = Some summary"
    and "pathA \<noteq> pathB"
  shows "\<exists>vector.
           map_of (tfidfVectorsOf fileSummaries) pathA = Some vector \<and>
           map_of (tfidfVectorsOf fileSummaries) pathB = Some vector \<and>
           (let similarity = calculateCosineSimilarity vector vector;
                semanticGraph = buildSemanticGraph fileSummaries
            in if list_all (occursInEveryDocument fileSummaries) (survivingTerms summary)
               then similarity = 0 \<and> (\<forall>s. \<not> hasLink semanticGraph pathA pathB s)
               else \<bar>similarity - 1\<bar> \<le> 1 / 2 ^ 50 \<and>
                    hasLink semanticGraph pathA pathB similarity \<and>
                    hasLink semanticGraph pathB pathA similarity)"
proof -
  let ?fs = fileSummaries
  define v where "v = tfidfVectorOf (length ?fs) (snd (tfdfMaps ?fs)) (termFrequenciesOf summary)"
  let ?c = "calculateCosineSimilarity v v"
  let ?fp = "map fst ?fs"
  have va: "map_of (tfidfVectorsOf ?fs) pathA = Some v"
    and vb: "map_of (tfidfVectorsOf ?fs) pathB = Some v"
    using assms(3,4) by (simp_all add: map_of_tfidfVectorsOf v_def)
  have two: "\<not> length ?fp < 2"
  proof -
    have "{pathA, pathB} \<subseteq> set ?fp"
      using assms(3,4) by (auto dest!: map_of_SomeD intro: rev_image_eqI)
    then have "card {pathA, pathB} \<le> card (set ?fp)" by (intro card_mono) auto
    also have "\<dots> \<le> length ?fp" by (rule card_length)
    finally show ?thesis using assms(5) by simp
  qed
  have graph: "hasLink (buildSemanticGraph ?fs) a b s \<longleftrightarrow> hasLink (linkAll (tfidfVectorsOf ?fs) ?fp) a b s"
    for a b s
    using two by (simp add: buildSemanticGraph_def Let_def hasLink_sortLinks)
  show ?thesis
  proof (cases "list_all (occursInEveryDocument ?fs) (survivingTerms summary)")
    case True
    have zero: "?c = 0"
      unfolding v_def using assms(1,2,3) True by (rule self_similarity_cases(1))
    have "\<not> hasLink (buildSemanticGraph ?fs) pathA pathB s" for s
    proof
      assume "hasLink (buildSemanticGraph ?fs) pathA pathB s"
      then have "hasLink (linkAll (tfidfVectorsOf ?fs) ?fp) pathA pathB s" by (simp add: graph)
      from linkAll_sound [OF this] va vb have "s = ?c" and "s > roundToDouble 0.01"
        by (auto simp del: divide_numeral_1)
      then show False using zero unfolding roundToDouble_threshold by simp
    qed
    then show ?thesis using va vb zero True by (intro exI [of _ v]) (simp add: Let_def)
  next
    case False
    have near: "\<bar>?c - 1\<bar> \<le> 1 / 2 ^ 50"
      unfolding v_def using assms(1,2,3) False by (rule self_similarity_cases(2))
    then have "1 - 1 / 2 ^ 50 \<le> ?c" by (simp only: abs_le_iff) linarith
    then have gt: "?c > roundToDouble 0.01" unfolding roundToDouble_threshold by simp
    obtain i where i: "i < length ?fp" "?fp ! i = pathA"
      using assms(3) by (metis map_of_SomeD in_set_conv_nth fst_conv image_eqI set_map)
    obtain j where j: "j < length ?fp" "?fp ! j = pathB"
      using assms(4) by (metis map_of_SomeD in_set_conv_nth fst_conv image_eqI set_map)
    have "i \<noteq> j" using i j assms(5) by auto
    then consider "i < j" | "j < i" by linarith
    then have "hasLink (linkAll (tfidfVectorsOf ?fs) ?fp) pathA pathB ?c \<and>
               hasLink (linkAll (tfidfVectorsOf ?fs) ?fp) pathB pathA ?c"
    proof cases
      case 1
      show ?thesis
        using linkAll_complete [OF 1 j(1), of "tfidfVectorsOf ?fs" v v] va vb gt i(2) j(2) by simp
    next
      case 2
      show ?thesis
        using linkAll_complete [OF 2 i(1), of "tfidfVectorsOf ?fs" v v] va vb gt i(2) j(2) by simp
    qed
    then show ?thesis using va vb near False by (intro exI [of _ v]) (simp add: Let_def graph)
  qed
qed

theorem identical_summaries_similarity_witness:
  "(\<exists>vector.
      map_of (tfidfVectorsOf
        [(''a.ts'', ''alpha beta beta''), (''b.ts'', ''alpha beta beta''), (''c.ts'', ''zeta'')]) ''a.ts''
        = Some vector \<and>
      map_of (tfidfVectorsOf
        [(''a.ts'', ''alpha beta beta''), (''b.ts'', ''alpha beta beta''), (''c.ts'', ''zeta'')]) ''b.ts''
        = Some vector \<and>
      \<bar>calculateCosineSimilarity vector vector - 1\<bar> \<le> 1 / 2 ^ 50 \<and>
      hasLink (buildSemanticGraph
        [(''a.ts'', ''alpha beta beta''), (''b.ts'', ''alpha beta beta''), (''c.ts'', ''zeta'')])
        ''a.ts'' ''b.ts'' (calculateCosineSimilarity vector vector) \<and>
      hasLink (buildSemanticGraph
        [(''a.ts'', ''alpha beta beta''), (''b.ts'', ''alpha beta beta''), (''c.ts'', ''zeta'')])
        ''b.ts'' ''a.ts'' (calculateCosineSimilarity vector vector)) \<and>
   (\<exists>vector.
      map_of (tfidfVectorsOf [(''a.ts'', ''login''), (''b.ts'', ''login'')]) ''a.ts'' = Some vector \<and>
      map_of (tfidfVectorsOf [(''a.ts'', ''login''), (''b.ts'', ''login'')]) ''b.ts'' = Some vector \<and>
      calculateCosineSimilarity vector vector = 0 \<and>
      (\<forall>s. \<not> hasLink (buildSemanticGraph [(''a.ts'', ''login''), (''b.ts'', ''login'')])
              ''a.ts'' ''b.ts'' s))"
proof -
  let ?r = "[(''a.ts'', ''alpha beta beta''), (''b.ts'', ''alpha beta beta''), (''c.ts'', ''zeta'')]"
  let ?z = "[(''a.ts'', ''login''), (''b.ts'', ''login'')]"
  have r: "\<not> list_all (occursInEveryDocument ?r) (survivingTerms ''alpha beta beta'')"
    by (simp add: occursInEveryDocument_def survivingTerms_alpha_beta survivingTerms_zeta)
  have z: "list_all (occursInEveryDocument ?z) (survivingTerms ''login'')"
    by (simp add: occursInEveryDocument_def survivingTerms_login)
  have "length ?r < 2 ^ 53" and "length ?z < 2 ^ 53" by simp_all
  then show ?thesis
    using identical_summaries_similarity [of ?r "''a.ts''" "''alpha beta beta''" "''b.ts''"]
          identical_summaries_similarity [of ?z "''a.ts''" "''login''" "''b.ts''"] r z
    by (simp add: Let_def)
qed

theorem identical_summaries_counterexample:
  "map_of [(''a.ts'', ''login''), (''b.ts'', ''login'')] ''a.ts'' = Some ''login'' \<and>
   map_of [(''a.ts'', ''login''), (''b.ts'', ''login'')] ''b.ts'' = Some ''login'' \<and>
   termFrequenciesOf ''login'' = [(''login'', 1)] \<and>
   map_of (tfidfVectorsOf [(''a.ts'', ''login''), (''b.ts'', ''login'')]) ''a.ts'' = Some [(''login'', 0)] \<and>
   map_of (tfidfVectorsOf [(''a.ts'', ''login''), (''b.ts'', ''login'')]) ''b.ts'' = Some [(''login'', 0)] \<and>
   calculateCosineSimilarity [(''login'', 0)] [(''login'', 0)] = 0 \<and>
   buildSemanticGraph [(''a.ts'', ''login''), (''b.ts'', ''login'')] = [] \<and>
   termFrequenciesOf ''alpha beta beta'' = [(''alpha'', 1), (''beta'', 2)] \<and>
   map_of (tfidfVectorsOf
      [(''a.ts'', ''alpha beta beta''), (''b.ts'', ''alpha beta beta''), (''c.ts'', ''zeta'')]) ''a.ts''
     = Some [(''alpha'', 7304210039150668 / 2 ^ 54), (''beta'', 7304210039150668 / 2 ^ 53)] \<and>
   map_of (tfidfVectorsOf
      [(''a.ts'', ''alpha beta beta''), (''b.ts'', ''alpha beta beta''), (''c.ts'', ''zeta'')]) ''b.ts''
     = Some [(''alpha'', 7304210039150668 / 2 ^ 54), (''beta'', 7304210039150668 / 2 ^ 53)] \<and>
   calculateCosineSimilarity
      [(''alpha'', 7304210039150668 / 2 ^ 54), (''beta'', 7304210039150668 / 2 ^ 53)]
      [(''alpha'', 7304210039150668 / 2 ^ 54), (''beta'', 7304210039150668 / 2 ^ 53)]
     = 4503599627370497 / 2 ^ 52 \<and>
   (4503599627370497 / 2 ^ 52 :: real) \<noteq> 1"
proof -
  have z: "\<not> roundToDouble 0.01 < 0" using threshold_positive by simp
  have c: "calculateCosineSimilarity [(''login'', 0)] [(''login'', 0)] = 0"
    by (simp add: calculateCosineSimilarity_def jsSetOf_def Let_def dmul_def dadd_def)
  have g: "buildSemanticGraph [(''a.ts'', ''login''), (''b.ts'', ''login'')] = []"
    unfolding buildSemanticGraph_def Let_def tfidfVectorsOf_corpus2
    using z by (simp add: c linkAll_def linkStep_def sortLinks_def sortBy_def upt_rec Let_def)
  show ?thesis
    unfolding tfidfVectorsOf_corpus2 tfidfVectorsOf_rounding cosine_rounding g c tf_login tf_alpha_beta
    by simp
qed

section \<open>Range extraction: properties\<close>

text \<open>
  \<^bold>\<open>C8.\<close> For a range whose start line is negative, or whose end line is at or beyond the
  number of lines of the file, or whose start line is greater than its end line,
  \<^const>\<open>extractContentForRange\<close> returns the empty string; it has no error result.
\<close>

theorem extractContentForRange_invalid_range:
  assumes "line (start rng) < 0 \<or> line (end' rng) \<ge> int (length (splitLines fullContent)) \<or>
           line (start rng) > line (end' rng)"
  shows "extractContentForRange fullContent rng = []"
  using assms unfolding extractContentForRange_def Let_def by auto

theorem extractContentForRange_invalid_range_witness:
  "extractContentForRange ''ab\<newline>cd''
     \<lparr>start = \<lparr>line = - 1, character = 0\<rparr>, end' = \<lparr>line = 0, character = 1\<rparr>\<rparr> = [] \<and>
   extractContentForRange ''ab\<newline>cd''
     \<lparr>start = \<lparr>line = 0, character = 0\<rparr>, end' = \<lparr>line = 2, character = 0\<rparr>\<rparr> = [] \<and>
   extractContentForRange ''ab\<newline>cd''
     \<lparr>start = \<lparr>line = 1, character = 0\<rparr>, end' = \<lparr>line = 0, character = 1\<rparr>\<rparr> = []"
proof -
  let ?negative = "\<lparr>start = \<lparr>line = - 1, character = 0\<rparr>, end' = \<lparr>line = 0, character = 1\<rparr>\<rparr>"
  let ?beyond = "\<lparr>start = \<lparr>line = 0, character = 0\<rparr>, end' = \<lparr>line = 2, character = 0\<rparr>\<rparr>"
  let ?reversed = "\<lparr>start = \<lparr>line = 1, character = 0\<rparr>, end' = \<lparr>line = 0, character = 1\<rparr>\<rparr>"
  have n: "length (splitLines ''ab\<newline>cd'') = 2" by simp
  show ?thesis
    using extractContentForRange_invalid_range [of ?negative "''ab\<newline>cd''"]
      extractContentForRange_invalid_range [of ?beyond "''ab\<newline>cd''"]
      extractContentForRange_invalid_range [of ?reversed "''ab\<newline>cd''"]
    by (simp add: n)
qed

section \<open>The budgeted summary: auxiliary facts\<close>

lemma acceptedInOrder_snoc:
  assumes "acceptedInOrder rs" and "\<not> isSubstantiallyOverlapping rs r"
  shows "acceptedInOrder (rs @ [r])"
  unfolding acceptedInOrder_def
proof (intro allI impI)
  fix j assume j: "j < length (rs @ [r])"
  show "\<not> isSubstantiallyOverlapping (take j (rs @ [r])) ((rs @ [r]) ! j)"
  proof (cases "j < length rs")
    case True
    then show ?thesis using assms(1) by (simp add: acceptedInOrder_def nth_append)
  next
    case False
    then have "j = length rs" using j by simp
    then show ?thesis using assms(2) by simp
  qed
qed

lemma addContentBlock_ranges:
  "includedRanges (snd (addContentBlock m st c r mk d dl)) = includedRanges st \<or>
   (\<not> isSubstantiallyOverlapping (includedRanges st) r \<and>
    includedRanges (snd (addContentBlock m st c r mk d dl)) = includedRanges st @ [r])"
  unfolding addContentBlock_def Let_def by simp

lemma addContentBlock_accepted:
  "acceptedInOrder (includedRanges st) \<Longrightarrow>
   acceptedInOrder (includedRanges (snd (addContentBlock m st c r mk d dl)))"
  using addContentBlock_ranges [of m st c r mk d dl] acceptedInOrder_snoc by metis

lemma processCandidates_invariant:
  assumes "P st"
    and step: "\<And>st c r mk d dl. P st \<Longrightarrow> P (snd (addContentBlock m st c r mk d dl))"
  shows "P (processCandidates m fc cs st)"
  using assms(1)
proof (induction cs arbitrary: st)
  case Nil
  then show ?case by simp
next
  case (Cons c cs)
  show ?case
    unfolding processCandidates.simps Let_def
    using Cons.prems by (auto intro!: Cons.IH step)
qed

lemma fallbackLoop_invariant:
  assumes "P st"
    and step: "\<And>st c r mk d dl. P st \<Longrightarrow> P (snd (addContentBlock m st c r mk d dl))"
  shows "P (fallbackLoop m fc fileLines currentLine st)"
  using assms
proof (induction m fc fileLines currentLine st rule: fallbackLoop.induct)
  case (1 m fc fileLines currentLine st)
  note step = "1.prems"(2)
  define lineRange where
    "lineRange = mkRange4 currentLine 0 currentLine (int (length (fileLines ! nat currentLine)))"
  define isLineCovered where
    "isLineCovered = list_ex (\<lambda>r. contains r (start lineRange)) (includedRanges st)"
  define blockEndLine where
    "blockEndLine = uncoveredBlockEnd (includedRanges st) (int (length fileLines)) currentLine"
  define snippetRange where
    "snippetRange = mkRange4 currentLine 0 blockEndLine (int (length (fileLines ! nat blockEndLine)))"
  define snippetContent where "snippetContent = extractContentForRange fc snippetRange"
  define st' where "st' =
    (if trim snippetContent \<noteq> []
     then snd (addContentBlock m st snippetContent snippetRange MARKERS_CONTEXT
                (''Lines '' @ showInt (currentLine + 1) @ ''-'' @ showInt (blockEndLine + 1))
                (Some (m - currentLength st)))
     else st)"
  have unfold: "fallbackLoop m fc fileLines currentLine st =
      (if currentLine < int (length fileLines) \<and> currentLength st < m
       then (if \<not> isLineCovered then fallbackLoop m fc fileLines (blockEndLine + 1) st'
             else fallbackLoop m fc fileLines (currentLine + 1) st)
       else st)"
    by (subst fallbackLoop.simps)
       (simp add: Let_def lineRange_def isLineCovered_def blockEndLine_def snippetRange_def
          snippetContent_def st'_def)
  have st': "P st'" unfolding st'_def using "1.prems"(1) by (simp add: step)
  show ?case
  proof (cases "currentLine < int (length fileLines) \<and> currentLength st < m")
    case False
    then have "fallbackLoop m fc fileLines currentLine st = st"
      unfolding unfold by (rule if_not_P)
    then show ?thesis using "1.prems"(1) by simp
  next
    case cond: True
    show ?thesis
    proof (cases isLineCovered)
      case True
      have "P (fallbackLoop m fc fileLines (currentLine + 1) st)"
        using "1.IH"(2) [OF cond lineRange_def isLineCovered_def _ "1.prems"(1) step] True by simp
      then show ?thesis unfolding unfold using cond True by simp
    next
      case False
      have "P (fallbackLoop m fc fileLines (blockEndLine + 1) st')"
        using "1.IH"(1) [OF cond lineRange_def isLineCovered_def False blockEndLine_def
            snippetRange_def snippetContent_def _ step] st'
        unfolding st'_def by simp
      then show ?thesis unfolding unfold using cond False by simp
    qed
  qed
qed

lemma packCandidates_invariant:
  assumes "P \<lparr>currentLength = 0, collectedParts = [], includedRanges = []\<rparr>"
    and step: "\<And>st c r mk d dl. P st \<Longrightarrow> P (snd (addContentBlock m st c r mk d dl))"
  shows "P (packCandidates m fc cs)"
proof -
  have "P (processCandidates m fc (sortBy compareCandidates cs)
            \<lparr>currentLength = 0, collectedParts = [], includedRanges = []\<rparr>)"
    using assms by (rule processCandidates_invariant)
  then show ?thesis
    unfolding packCandidates_def Let_def
    by (auto intro: fallbackLoop_invariant [where P = P] step)
qed

lemma packCandidates_accepted: "acceptedInOrder (includedRanges (packCandidates m fc cs))"
  by (rule packCandidates_invariant [where P = "\<lambda>st. acceptedInOrder (includedRanges st)"])
     (simp_all add: acceptedInOrder_def [of "[]"] addContentBlock_accepted)

lemma example_ranges:
  "map_sum id includedRanges
     (summaryState 0 ''a\<newline>b\<newline>c\<newline>d''
        (Some [DocumentSymbol ''p'' [] Property (mkRange4 0 0 3 1) (mkRange4 0 0 0 1) []])
        (Some \<lparr>activeName = ''f'', activeKind = None, fullRange = Some (mkRange4 1 0 1 1),
           filePath = None, incomingCalls = None, outgoingCalls = None\<rparr>) 1000)
   = Inr [mkRange4 1 0 1 1, mkRange4 0 0 3 1]"
  by code_simp

lemmas marker_defs =
  MARKERS_DOC_def MARKERS_STRUCT_def MARKERS_SIGNATURE_def MARKERS_ACTIVE_SYMBOL_def
  MARKERS_IMPORTS_def MARKERS_PREAMBLE_def MARKERS_CONTEXT_def

lemma exported_not_active:
  "exportedSymbolCandidates fc m syms = Inr cs \<Longrightarrow> c \<in> set cs \<Longrightarrow> \<not> isActiveCandidate c"
proof (induction syms arbitrary: cs)
  case Nil
  then show ?case by simp
next
  case (Cons s syms)
  then show ?case
    by (auto simp: isActiveCandidate_def marker_defs split: sum.splits option.splits if_splits)
qed

lemma internal_not_active:
  "internalSymbolCandidates fc syms = Inr cs \<Longrightarrow> c \<in> set cs \<Longrightarrow> \<not> isActiveCandidate c"
proof (induction syms arbitrary: cs)
  case Nil
  then show ?case by simp
next
  case (Cons s syms)
  then show ?case
    by (auto simp: isActiveCandidate_def marker_defs split: sum.splits)
qed

lemma preamble_not_active: "c \<in> set (preambleCandidates ls m) \<Longrightarrow> \<not> isActiveCandidate c"
  by (auto simp: preambleCandidates_def Let_def isActiveCandidate_def marker_defs split: if_splits)

lemma import_not_active: "c \<in> set (importCandidates ls m) \<Longrightarrow> \<not> isActiveCandidate c"
  by (auto simp: importCandidates_def Let_def isActiveCandidate_def marker_defs split: if_splits)

lemma calls_not_active: "c \<in> set (callHierarchyCandidates mr a) \<Longrightarrow> \<not> isActiveCandidate c"
  by (auto simp: callHierarchyCandidates_def Let_def isActiveCandidate_def marker_defs
        split: option.splits if_splits)

lemma active_example_candidates:
  "collectCandidates 0 ''x'' None
     (Some \<lparr>activeName = ''f'', activeKind = None, fullRange = Some (mkRange4 0 0 0 1),
        filePath = Some p, incomingCalls = None, outgoingCalls = None\<rparr>) 100
   = Inr [\<lparr>priority = 5, candidateRange = mkRange4 0 0 0 1, marker = MARKERS_ACTIVE_SYMBOL,
           description = ''f (Unknown)'', contentOverride = None, desiredBlockLength = None\<rparr>]"
  by (simp add: collectCandidates_def Let_def activeSymbolCandidates_def preambleCandidates_def
        preambleEndLineOf_def isPreambleLine_def importCandidates_def importAndSetupEndLineOf_def
        importKeywords_def callHierarchyCandidates_def trim_def isWhiteSpace_def startsWith_def)

lemma assemble_nonempty:
  assumes "fileContent \<noteq> []"
  shows "assemble maxAllowedLength fileContent st \<noteq> []"
  using assms unfolding assemble_def Let_def by (simp split: if_splits)

lemma summary_nonempty_if_returned:
  assumes "intelligentlySummarizeFileContent maxReferenced fileContent documentSymbols
             activeSymbolDetailedInfo maxAllowedLength = Inr s"
    and "fileContent \<noteq> []"
  shows "s \<noteq> []"
  using assms assemble_nonempty
  by (auto simp: intelligentlySummarizeFileContent_def split: sum.splits)

lemma summary_returns_without_symbols:
  "\<exists>s. intelligentlySummarizeFileContent maxReferenced fileContent None activeSymbolDetailedInfo
          maxAllowedLength = Inr s"
  by (simp add: intelligentlySummarizeFileContent_def summaryState_def collectCandidates_def Let_def)

lemma length_trim_le: "length (trim s) \<le> length s"
proof -
  have "length (dropWhile P xs) \<le> length xs" for P and xs :: string
    by (induction xs) auto
  then have "length (dropWhile isWhiteSpace (rev (dropWhile isWhiteSpace s)))
               \<le> length (dropWhile isWhiteSpace s)"
    and "length (dropWhile isWhiteSpace s) \<le> length s"
    by (metis length_rev, blast)
  then show ?thesis by (simp add: trim_def)
qed

lemma length_substring_le: "0 \<le> b \<Longrightarrow> int (length (substring s 0 b)) \<le> b"
  by (simp add: substring_def Let_def)

lemma assemble_length_bound:
  assumes "0 \<le> maxAllowedLength"
  shows "int (length (assemble maxAllowedLength fileContent st)) \<le> max (maxAllowedLength + 19) 153"
proof -
  define joined where "joined =
    joinWith ([CHR 0x0A, CHR 0x0A] @ ''// ... (non-contiguous section) ...'' @ [CHR 0x0A, CHR 0x0A])
      (map fst (sortBy (\<lambda>a b. real_of_int (snd a - snd b)) (collectedParts st)))"
  define finalContent where "finalContent =
    (if int (length joined) > maxAllowedLength
     then substring joined 0 maxAllowedLength @ [CHR 0x0A] @ ''// ... (truncated)''
     else joined)"
  have f: "int (length finalContent) \<le> maxAllowedLength + 19"
    unfolding finalContent_def using length_substring_le [OF assms, of joined] by simp
  have t: "int (length (trim finalContent)) \<le> maxAllowedLength + 19"
    using f length_trim_le [of finalContent] by linarith
  have s: "int (length (''// File content could not be summarized. Snippet: ''
              @ substring fileContent 0 (min (int (length fileContent)) 100) @ ''...'')) \<le> 153"
    using length_substring_le [of "min (int (length fileContent)) 100" fileContent] by simp
  define snippet where "snippet = ''// File content could not be summarized. Snippet: ''
              @ substring fileContent 0 (min (int (length fileContent)) 100) @ ''...''"
  have "assemble maxAllowedLength fileContent st = snippet \<or>
        assemble maxAllowedLength fileContent st = trim finalContent"
    unfolding assemble_def Let_def finalContent_def joined_def snippet_def by simp
  then show ?thesis using s t unfolding snippet_def [symmetric] by (elim disjE) simp_all
qed

lemma summary_length_bound:
  assumes "intelligentlySummarizeFileContent maxReferenced fileContent documentSymbols
             activeSymbolDetailedInfo maxAllowedLength = Inr s"
    and "0 \<le> maxAllowedLength"
  shows "int (length s) \<le> max (maxAllowedLength + 19) 153"
  using assms assemble_length_bound
  by (auto simp: intelligentlySummarizeFileContent_def split: sum.splits)

lemma findBrace_returns:
  "list_all (\<lambda>i. 0 \<le> i \<and> i < int (length lines)) is \<Longrightarrow> \<exists>r. findBrace lines st is = Inr r"
  by (induction "is") (auto simp: Let_def)

lemma getDeclarationRange_returns:
  assumes "withinFile (splitLines fullContent) symbol"
  shows "\<exists>r. getDeclarationRange fullContent symbol = Inr r"
proof -
  have "list_all (\<lambda>i. 0 \<le> i \<and> i < int (length (splitLines fullContent)))
          [line (start (range' symbol)) .. line (end' (range' symbol))]"
    using assms by (auto simp: withinFile_def list_all_iff)
  from findBrace_returns [OF this, of "start (range' symbol)"]
  show ?thesis unfolding getDeclarationRange_def Let_def by (auto split: option.splits)
qed

lemma skipBlankLinesUp_returns:
  "currentLine < int (length lines) \<Longrightarrow> \<exists>r. skipBlankLinesUp lines currentLine = Inr r"
proof (induction lines currentLine rule: skipBlankLinesUp.induct)
  case (1 lines currentLine)
  then show ?case by (subst skipBlankLinesUp.simps) auto
qed

lemma getDocumentationRange_returns:
  assumes "withinFile (splitLines fullContent) symbol"
  shows "\<exists>r. getDocumentationRange fullContent symbol = Inr r"
proof -
  have "line (start (range' symbol)) - 1 < int (length (splitLines fullContent))"
    using assms by (simp add: withinFile_def)
  from skipBlankLinesUp_returns [OF this]
  show ?thesis unfolding getDocumentationRange_def Let_def by auto
qed

lemma childLines_returns:
  "list_all (withinFile (splitLines fullContent)) cs \<Longrightarrow> \<exists>r. childLines fullContent cs = Inr r"
proof (induction cs)
  case Nil
  then show ?case by simp
next
  case (Cons c cs)
  obtain r where "getDeclarationRange fullContent c = Inr r"
    using getDeclarationRange_returns [of fullContent c] Cons.prems by auto
  moreover obtain rs where "childLines fullContent cs = Inr rs"
    using Cons by auto
  ultimately show ?case by (simp add: Let_def)
qed

lemma formatSymbolStructure_returns:
  assumes "withinFile (splitLines fullContent) symbol"
    and "list_all (withinFile (splitLines fullContent)) (children symbol)"
  shows "\<exists>r. formatSymbolStructure symbol fullContent = Inr r"
proof -
  obtain r where "getDeclarationRange fullContent symbol = Inr r"
    using getDeclarationRange_returns [OF assms(1)] by auto
  moreover obtain rs where "childLines fullContent (children symbol) = Inr rs"
    using childLines_returns [OF assms(2)] by auto
  ultimately show ?thesis by (simp add: formatSymbolStructure_def Let_def)
qed

lemma exportedSymbolCandidates_returns:
  "symbolsWithinFile (splitLines fileContent) symbols \<Longrightarrow>
   \<exists>cs. exportedSymbolCandidates fileContent maxAllowedLength symbols = Inr cs"
proof (induction symbols)
  case Nil
  then show ?case by simp
next
  case (Cons symbol symbols)
  have w: "withinFile (splitLines fileContent) symbol"
    and c: "list_all (withinFile (splitLines fileContent)) (children symbol)"
    and rest: "symbolsWithinFile (splitLines fileContent) symbols"
    using Cons.prems by (simp_all add: symbolsWithinFile_def)
  obtain d where d: "getDocumentationRange fileContent symbol = Inr d"
    using getDocumentationRange_returns [OF w] by auto
  obtain f where f: "formatSymbolStructure symbol fileContent = Inr f"
    using formatSymbolStructure_returns [OF w c] by auto
  obtain r where r: "getDeclarationRange fileContent symbol = Inr r"
    using getDeclarationRange_returns [OF w] by auto
  obtain cs where cs: "exportedSymbolCandidates fileContent maxAllowedLength symbols = Inr cs"
    using Cons.IH [OF rest] by auto
  show ?case by (simp add: d f r cs)
qed

lemma internalSymbolCandidates_returns:
  "symbolsWithinFile (splitLines fileContent) symbols \<Longrightarrow>
   \<exists>cs. internalSymbolCandidates fileContent symbols = Inr cs"
proof (induction symbols)
  case Nil
  then show ?case by simp
next
  case (Cons symbol symbols)
  have w: "withinFile (splitLines fileContent) symbol"
    and rest: "symbolsWithinFile (splitLines fileContent) symbols"
    using Cons.prems by (simp_all add: symbolsWithinFile_def)
  obtain r where r: "getDeclarationRange fileContent symbol = Inr r"
    using getDeclarationRange_returns [OF w] by auto
  obtain cs where cs: "internalSymbolCandidates fileContent symbols = Inr cs"
    using Cons.IH [OF rest] by auto
  show ?case by (simp add: r cs)
qed

lemma symbolsWithinFile_filter:
  "symbolsWithinFile lines symbols \<Longrightarrow> symbolsWithinFile lines (filter P symbols)"
  by (auto simp: symbolsWithinFile_def list_all_iff)

lemma collectCandidates_returns:
  assumes "symbolsWithinFile (splitLines fileContent) (case documentSymbols of None \<Rightarrow> [] | Some ss \<Rightarrow> ss)"
  shows "\<exists>cs. collectCandidates maxReferenced fileContent documentSymbols activeSymbolDetailedInfo
                maxAllowedLength = Inr cs"
proof -
  obtain ex where "exportedSymbolCandidates fileContent maxAllowedLength
           (filter (\<lambda>symbol. kind symbol \<in> set EXPORTED_SYMBOL_KINDS \<and>
                line (start (range' symbol)) > importAndSetupEndLineOf (splitLines fileContent))
              (case documentSymbols of None \<Rightarrow> [] | Some ss \<Rightarrow> ss)) = Inr ex"
    using exportedSymbolCandidates_returns [OF symbolsWithinFile_filter [OF assms]] by blast
  moreover obtain int where "internalSymbolCandidates fileContent
           (filter (\<lambda>symbol. kind symbol \<in> set MAJOR_SYMBOL_KINDS \<and>
                kind symbol \<notin> set EXPORTED_SYMBOL_KINDS)
              (case documentSymbols of None \<Rightarrow> [] | Some ss \<Rightarrow> ss)) = Inr int"
    using internalSymbolCandidates_returns [OF symbolsWithinFile_filter [OF assms]] by blast
  ultimately show ?thesis by (simp add: collectCandidates_def Let_def)
qed

lemma summary_nonempty_for_symbols_within_file:
  assumes "fileContent \<noteq> []"
    and "symbolsWithinFile (splitLines fileContent) (case documentSymbols of None \<Rightarrow> [] | Some ss \<Rightarrow> ss)"
  shows "\<exists>s. intelligentlySummarizeFileContent maxReferenced fileContent documentSymbols
               activeSymbolDetailedInfo maxAllowedLength = Inr s \<and> s \<noteq> []"
proof -
  obtain cs where "collectCandidates maxReferenced fileContent documentSymbols activeSymbolDetailedInfo
                maxAllowedLength = Inr cs"
    using collectCandidates_returns [OF assms(2)] by blast
  then show ?thesis
    using assemble_nonempty [OF assms(1)]
    by (simp add: intelligentlySummarizeFileContent_def summaryState_def)
qed

lemma intersection_lineCount_pos:
  assumes "intersection a b = Some c"
  shows "0 < lineCount b"
proof -
  define s where "s = (if isAfter (start a) (start b) then start a else start b)"
  define e where "e = (if isBefore (end' a) (end' b) then end' a else end' b)"
  have "\<not> isAfter s e"
    using assms by (simp add: intersection_def Let_def s_def e_def split: if_splits)
  moreover have "\<not> isBefore s (start b)"
    by (auto simp: s_def isAfter_def isBefore_def)
  moreover have "\<not> isBefore (end' b) e"
    by (auto simp: e_def isBefore_def)
  ultimately have "line (start b) \<le> line (end' b)"
    by (auto simp: isAfter_def isBefore_def)
  then show ?thesis by (simp add: lineCount_def)
qed

lemma example_ranges_same_line:
  "map_sum id includedRanges
     (summaryState 0 ''ab cd''
        (Some [DocumentSymbol ''p'' [] Property (mkRange4 0 3 0 5) (mkRange4 0 3 0 4) []])
        (Some \<lparr>activeName = ''f'', activeKind = None, fullRange = Some (mkRange4 0 0 0 2),
           filePath = None, incomingCalls = None, outgoingCalls = None\<rparr>) 1000)
   = Inr [mkRange4 0 0 0 2, mkRange4 0 3 0 5]"
  by code_simp

lemma example_ranges_touching:
  "map_sum id includedRanges
     (summaryState 0 ''ab\<newline>cd''
        (Some [DocumentSymbol ''p'' [] Property (mkRange4 1 0 1 2) (mkRange4 1 0 1 1) []])
        (Some \<lparr>activeName = ''f'', activeKind = None, fullRange = Some (mkRange4 0 0 1 0),
           filePath = None, incomingCalls = None, outgoingCalls = None\<rparr>) 1000)
   = Inr [mkRange4 0 0 1 0, mkRange4 1 0 1 2]"
  by code_simp

lemma active_candidate_given:
  assumes "a = Some info" and "fullRange info = Some r"
  shows "\<exists>c \<in> set (activeSymbolCandidates a).
           priority c = 5 \<and> marker c = MARKERS_ACTIVE_SYMBOL \<and> candidateRange c = r"
  using assms by (simp add: activeSymbolCandidates_def Let_def)

lemma active_candidate_origin:
  assumes "c \<in> set (activeSymbolCandidates a)"
  shows "priority c = 5 \<and> marker c = MARKERS_ACTIVE_SYMBOL \<and>
         (\<exists>info. a = Some info \<and> fullRange info = Some (candidateRange c))"
  using assms by (auto simp: activeSymbolCandidates_def Let_def split: option.splits)

section \<open>The budgeted summary: properties\<close>

text \<open>
  \<^bold>\<open>C1.\<close> The claim is that the returned string is never longer than \<open>maxAllowedLength\<close>.
  For the two-line file \<^verbatim>\<open>//a\<close>, \<^verbatim>\<open>b\<close> and a budget of 150 the two accepted blocks have
  68 and 51 characters, the separator between them is not counted in \<open>currentLength\<close>, and
  the final cut to 150 characters is followed by the 19 characters of the truncation note:
  the result has 169 characters. (\<^const>\<open>addContentBlock\<close> does reserve the room of its own
  truncation note; the final assembly does not. By \<open>summary_length_bound\<close> the result never
  exceeds the larger of \<open>maxAllowedLength + 19\<close> and 153.)
\<close>

theorem summary_exceeds_budget:
  "intelligentlySummarizeFileContent maxReferenced ''//a\<newline>b'' None None 150 =
     Inr ''// [PREAMBLE: High-level description]\<newline>//a\<newline>// [END_SECTION: PREAMBLE]\<newline>\<newline>// ... (non-contiguous section) ...\<newline>\<newline>// [CONTEXT: Lines 2-2]\<newline>b\<newline>// [END_SECTION: \<newline>// ... (truncated)'' \<and>
   length ''// [PREAMBLE: High-level description]\<newline>//a\<newline>// [END_SECTION: PREAMBLE]\<newline>\<newline>// ... (non-contiguous section) ...\<newline>\<newline>// [CONTEXT: Lines 2-2]\<newline>b\<newline>// [END_SECTION: \<newline>// ... (truncated)'' = 169"
  by code_simp

text \<open>
  \<^bold>\<open>C6.\<close> The claim is that a non-empty file always yields a non-empty string, for all
  symbol inputs. A symbol of an exported kind that starts more than one line beyond the end
  of the file makes \<^verbatim>\<open>getDocumentationRange\<close> read \<^verbatim>\<open>lines[currentLine]\<close> outside the array
  and call \<^verbatim>\<open>.trim()\<close> on \<^verbatim>\<open>undefined\<close>: the call throws and returns no string.
  (\<^const>\<open>extractContentForRange\<close> checks the same bounds and returns the empty string. For
  symbols that lie within the file a non-empty string is returned,
  \<open>summary_nonempty_for_symbols_within_file\<close>.)
\<close>

theorem summary_throws_on_symbol_beyond_file:
  "intelligentlySummarizeFileContent maxReferenced ''x''
     (Some [DocumentSymbol ''f'' [] Function (mkRange4 5 0 5 1) (mkRange4 5 0 5 1) []]) None 100
   = Inl TypeError"
  by code_simp

text \<open>
  \<^bold>\<open>C7.\<close> The overlap test is one-sided, in acceptance order, and made on the intersection
  of the two ranges as ranges of positions: when a block is accepted, its range has with each
  range accepted before it either no intersection, or an intersection that is a single
  position, or an intersection that spans fewer than 70% of the line count of the new block.
  Nothing is checked against the line count of the earlier block, and two ranges that share a
  line need not intersect. The last theorem below has three inputs where two accepted blocks
  share all the lines of one of them: a one-line block accepted first and a four-line block
  containing it accepted afterwards; two blocks on the same line in different columns, which
  have no intersection; and a block that starts at the position where the block before it
  ends, so that the intersection is that single position.
\<close>

theorem later_block_overlap_below_threshold:
  assumes "summaryState maxReferenced fileContent documentSymbols activeSymbolDetailedInfo
             maxAllowedLength = Inr st"
    and "i < j" and "j < length (includedRanges st)"
    and "intersection (includedRanges st ! i) (includedRanges st ! j) = Some common"
    and "\<not> isEmpty common"
  shows "real_of_int (lineCount common) < real_of_int (lineCount (includedRanges st ! j)) * 0.7"
proof -
  let ?rs = "includedRanges st"
  obtain cs where "st = packCandidates maxAllowedLength fileContent cs"
    using assms(1) by (auto simp: summaryState_def split: sum.splits)
  then have "acceptedInOrder ?rs" by (simp add: packCandidates_accepted)
  then have "\<not> isSubstantiallyOverlapping (take j ?rs) (?rs ! j)"
    using assms(3) by (simp add: acceptedInOrder_def)
  moreover have "0 < lineCount (?rs ! j)"
    using assms(4) by (rule intersection_lineCount_pos)
  ultimately have no: "\<not> list_ex (overlapsSubstantially (?rs ! j)) (take j ?rs)"
    by (simp add: isSubstantiallyOverlapping_def lineCount_def Let_def)
  have "?rs ! i \<in> set (take j ?rs)"
    using assms(2,3) by (metis length_take min.absorb2 less_imp_le nth_mem nth_take)
  then have "\<not> overlapsSubstantially (?rs ! j) (?rs ! i)"
    using no by (auto simp: list_ex_iff)
  then show ?thesis
    using assms(4,5) by (simp add: overlapsSubstantially_def lineCount_def Let_def)
qed

theorem later_block_overlap_below_threshold_witness:
  "\<exists>st. summaryState 0 ''a\<newline>b\<newline>c\<newline>d''
          (Some [DocumentSymbol ''p'' [] Property (mkRange4 0 0 3 1) (mkRange4 0 0 0 1) []])
          (Some \<lparr>activeName = ''f'', activeKind = None, fullRange = Some (mkRange4 1 0 1 1),
             filePath = None, incomingCalls = None, outgoingCalls = None\<rparr>) 1000 = Inr st \<and>
        includedRanges st = [mkRange4 1 0 1 1, mkRange4 0 0 3 1] \<and>
        intersection (mkRange4 1 0 1 1) (mkRange4 0 0 3 1) = Some (mkRange4 1 0 1 1) \<and>
        \<not> isEmpty (mkRange4 1 0 1 1) \<and>
        real_of_int (lineCount (mkRange4 1 0 1 1)) < real_of_int (lineCount (mkRange4 0 0 3 1)) * 0.7"
proof -
  obtain st where st: "summaryState 0 ''a\<newline>b\<newline>c\<newline>d''
          (Some [DocumentSymbol ''p'' [] Property (mkRange4 0 0 3 1) (mkRange4 0 0 0 1) []])
          (Some \<lparr>activeName = ''f'', activeKind = None, fullRange = Some (mkRange4 1 0 1 1),
             filePath = None, incomingCalls = None, outgoingCalls = None\<rparr>) 1000 = Inr st"
    and rs: "includedRanges st = [mkRange4 1 0 1 1, mkRange4 0 0 3 1]"
    using example_ranges by (auto simp: map_sum_def split: sum.splits)
  have i: "intersection (mkRange4 1 0 1 1) (mkRange4 0 0 3 1) = Some (mkRange4 1 0 1 1)"
    by (simp add: intersection_def mkRange4_def mkRange_def mkPosition_def isBefore_def isAfter_def)
  have e: "\<not> isEmpty (mkRange4 1 0 1 1)"
    by (simp add: isEmpty_def mkRange4_def mkRange_def mkPosition_def isBefore_def)
  have "real_of_int (lineCount (mkRange4 1 0 1 1)) < real_of_int (lineCount (mkRange4 0 0 3 1)) * 0.7"
    using later_block_overlap_below_threshold [OF st, of 0 1 "mkRange4 1 0 1 1"] i e
    by (simp add: rs)
  then show ?thesis using st rs i e by blast
qed

theorem accepted_blocks_overlap_counterexample:
  "map_sum id includedRanges
     (summaryState 0 ''a\<newline>b\<newline>c\<newline>d''
        (Some [DocumentSymbol ''p'' [] Property (mkRange4 0 0 3 1) (mkRange4 0 0 0 1) []])
        (Some \<lparr>activeName = ''f'', activeKind = None, fullRange = Some (mkRange4 1 0 1 1),
           filePath = None, incomingCalls = None, outgoingCalls = None\<rparr>) 1000)
   = Inr [mkRange4 1 0 1 1, mkRange4 0 0 3 1] \<and>
   lineCount (mkRange4 1 0 1 1) = 1 \<and>
   sharedLines (mkRange4 1 0 1 1) (mkRange4 0 0 3 1) = 1 \<and>
   real_of_int (sharedLines (mkRange4 1 0 1 1) (mkRange4 0 0 3 1))
     \<ge> real_of_int (lineCount (mkRange4 1 0 1 1)) * 0.7 \<and>
   map_sum id includedRanges
     (summaryState 0 ''ab cd''
        (Some [DocumentSymbol ''p'' [] Property (mkRange4 0 3 0 5) (mkRange4 0 3 0 4) []])
        (Some \<lparr>activeName = ''f'', activeKind = None, fullRange = Some (mkRange4 0 0 0 2),
           filePath = None, incomingCalls = None, outgoingCalls = None\<rparr>) 1000)
   = Inr [mkRange4 0 0 0 2, mkRange4 0 3 0 5] \<and>
   intersection (mkRange4 0 0 0 2) (mkRange4 0 3 0 5) = None \<and>
   lineCount (mkRange4 0 3 0 5) = 1 \<and>
   sharedLines (mkRange4 0 0 0 2) (mkRange4 0 3 0 5) = 1 \<and>
   real_of_int (sharedLines (mkRange4 0 0 0 2) (mkRange4 0 3 0 5))
     \<ge> real_of_int (lineCount (mkRange4 0 3 0 5)) * 0.7 \<and>
   map_sum id includedRanges
     (summaryState 0 ''ab\<newline>cd''
        (Some [DocumentSymbol ''p'' [] Property (mkRange4 1 0 1 2) (mkRange4 1 0 1 1) []])
        (Some \<lparr>activeName = ''f'', activeKind = None, fullRange = Some (mkRange4 0 0 1 0),
           filePath = None, incomingCalls = None, outgoingCalls = None\<rparr>) 1000)
   = Inr [mkRange4 0 0 1 0, mkRange4 1 0 1 2] \<and>
   intersection (mkRange4 0 0 1 0) (mkRange4 1 0 1 2) = Some (mkRange4 1 0 1 0) \<and>
   isEmpty (mkRange4 1 0 1 0) \<and>
   lineCount (mkRange4 1 0 1 2) = 1 \<and>
   sharedLines (mkRange4 0 0 1 0) (mkRange4 1 0 1 2) = 1 \<and>
   real_of_int (sharedLines (mkRange4 0 0 1 0) (mkRange4 1 0 1 2))
     \<ge> real_of_int (lineCount (mkRange4 1 0 1 2)) * 0.7"
  using example_ranges example_ranges_same_line example_ranges_touching
  by (simp add: lineCount_def sharedLines_def intersection_def isEmpty_def Let_def
        mkRange4_def mkRange_def mkPosition_def isBefore_def isAfter_def)

text \<open>
  \<^bold>\<open>C9.\<close> The candidate of priority 5 with the marker \<open>ACTIVE_SYMBOL\<close> is produced exactly
  when active-symbol information with a full range is supplied: then the candidate list holds
  a candidate with priority 5, that marker and that range, and every candidate that has
  priority 5 or that marker has both and spans the full range of the supplied information.
  The file path carried by that information plays no part, and the path of the summarised
  file is not an argument: the last theorem below gives the same candidate for two different
  paths, of which at most one is the file's.
\<close>

theorem active_symbol_candidate_iff_full_range:
  assumes "collectCandidates maxReferenced fileContent documentSymbols activeSymbolDetailedInfo
             maxAllowedLength = Inr candidates"
  shows "((\<exists>c \<in> set candidates. priority c = 5 \<and> marker c = MARKERS_ACTIVE_SYMBOL) \<longleftrightarrow>
          (\<exists>info r. activeSymbolDetailedInfo = Some info \<and> fullRange info = Some r)) \<and>
         (\<forall>info r. activeSymbolDetailedInfo = Some info \<and> fullRange info = Some r \<longrightarrow>
            (\<exists>c \<in> set candidates.
               priority c = 5 \<and> marker c = MARKERS_ACTIVE_SYMBOL \<and> candidateRange c = r)) \<and>
         (\<forall>c \<in> set candidates. priority c = 5 \<or> marker c = MARKERS_ACTIVE_SYMBOL \<longrightarrow>
            priority c = 5 \<and> marker c = MARKERS_ACTIVE_SYMBOL \<and>
            (\<exists>info. activeSymbolDetailedInfo = Some info \<and> fullRange info = Some (candidateRange c)))"
proof -
  obtain exported internal where
    ex: "exportedSymbolCandidates fileContent maxAllowedLength
           (filter (\<lambda>symbol. kind symbol \<in> set EXPORTED_SYMBOL_KINDS \<and>
                line (start (range' symbol)) > importAndSetupEndLineOf (splitLines fileContent))
              (case documentSymbols of None \<Rightarrow> [] | Some ss \<Rightarrow> ss)) = Inr exported"
    and int: "internalSymbolCandidates fileContent
           (filter (\<lambda>symbol. kind symbol \<in> set MAJOR_SYMBOL_KINDS \<and>
                kind symbol \<notin> set EXPORTED_SYMBOL_KINDS)
              (case documentSymbols of None \<Rightarrow> [] | Some ss \<Rightarrow> ss)) = Inr internal"
    and cs: "candidates = activeSymbolCandidates activeSymbolDetailedInfo
               @ preambleCandidates (splitLines fileContent) maxAllowedLength
               @ importCandidates (splitLines fileContent) maxAllowedLength
               @ exported
               @ callHierarchyCandidates maxReferenced activeSymbolDetailedInfo
               @ internal"
    using assms unfolding collectCandidates_def Let_def by (auto split: sum.splits)
  have only: "c \<in> set (activeSymbolCandidates activeSymbolDetailedInfo)"
    if "c \<in> set candidates" and "isActiveCandidate c" for c
    using that unfolding cs
    using exported_not_active [OF ex] internal_not_active [OF int]
      preamble_not_active import_not_active calls_not_active
    by auto
  have sub: "set (activeSymbolCandidates activeSymbolDetailedInfo) \<subseteq> set candidates"
    unfolding cs by simp
  have given: "\<exists>c \<in> set candidates.
                 priority c = 5 \<and> marker c = MARKERS_ACTIVE_SYMBOL \<and> candidateRange c = r"
    if "activeSymbolDetailedInfo = Some info" and "fullRange info = Some r" for info r
    using active_candidate_given [OF that] sub by blast
  have from_info: "priority c = 5 \<and> marker c = MARKERS_ACTIVE_SYMBOL \<and>
            (\<exists>info. activeSymbolDetailedInfo = Some info \<and> fullRange info = Some (candidateRange c))"
    if "c \<in> set candidates" and "priority c = 5 \<or> marker c = MARKERS_ACTIVE_SYMBOL" for c
  proof -
    have "isActiveCandidate c" using that(2) by (auto simp: isActiveCandidate_def)
    then have "c \<in> set (activeSymbolCandidates activeSymbolDetailedInfo)"
      using that(1) by (intro only)
    then show ?thesis by (rule active_candidate_origin)
  qed
  show ?thesis
  proof (intro conjI iffI allI impI ballI)
    assume "\<exists>c \<in> set candidates. priority c = 5 \<and> marker c = MARKERS_ACTIVE_SYMBOL"
    then obtain c where "c \<in> set candidates" "priority c = 5" by blast
    then show "\<exists>info r. activeSymbolDetailedInfo = Some info \<and> fullRange info = Some r"
      using from_info [of c] by blast
  next
    assume "\<exists>info r. activeSymbolDetailedInfo = Some info \<and> fullRange info = Some r"
    then show "\<exists>c \<in> set candidates. priority c = 5 \<and> marker c = MARKERS_ACTIVE_SYMBOL"
      using given by blast
  next
    fix info r
    assume "activeSymbolDetailedInfo = Some info \<and> fullRange info = Some r"
    then show "\<exists>c \<in> set candidates.
                 priority c = 5 \<and> marker c = MARKERS_ACTIVE_SYMBOL \<and> candidateRange c = r"
      using given by blast
  next
    fix c
    assume "c \<in> set candidates" and "priority c = 5 \<or> marker c = MARKERS_ACTIVE_SYMBOL"
    then have *: "priority c = 5 \<and> marker c = MARKERS_ACTIVE_SYMBOL \<and>
            (\<exists>info. activeSymbolDetailedInfo = Some info \<and> fullRange info = Some (candidateRange c))"
      by (rule from_info)
    show "priority c = 5" using * by blast
    show "marker c = MARKERS_ACTIVE_SYMBOL" using * by blast
    show "\<exists>info. activeSymbolDetailedInfo = Some info \<and> fullRange info = Some (candidateRange c)"
      using * by blast
  qed
qed

theorem active_symbol_candidate_iff_full_range_witness:
  "collectCandidates 0 ''x'' None
     (Some \<lparr>activeName = ''f'', activeKind = None, fullRange = Some (mkRange4 0 0 0 1),
        filePath = Some ''src/a.ts'', incomingCalls = None, outgoingCalls = None\<rparr>) 100
   = Inr [\<lparr>priority = 5, candidateRange = mkRange4 0 0 0 1, marker = MARKERS_ACTIVE_SYMBOL,
           description = ''f (Unknown)'', contentOverride = None, desiredBlockLength = None\<rparr>] \<and>
   (\<exists>c \<in> set [\<lparr>priority = 5, candidateRange = mkRange4 0 0 0 1, marker = MARKERS_ACTIVE_SYMBOL,
           description = ''f (Unknown)'', contentOverride = None, desiredBlockLength = None\<rparr>].
      priority c = 5 \<and> marker c = MARKERS_ACTIVE_SYMBOL \<and> candidateRange c = mkRange4 0 0 0 1)"
  using active_symbol_candidate_iff_full_range [OF active_example_candidates [of "''src/a.ts''"]]
    active_example_candidates [of "''src/a.ts''"]
  by simp

theorem active_symbol_other_file_counterexample:
  "collectCandidates 0 ''x'' None
     (Some \<lparr>activeName = ''f'', activeKind = None, fullRange = Some (mkRange4 0 0 0 1),
        filePath = Some ''src/a.ts'', incomingCalls = None, outgoingCalls = None\<rparr>) 100
   = Inr [\<lparr>priority = 5, candidateRange = mkRange4 0 0 0 1, marker = MARKERS_ACTIVE_SYMBOL,
           description = ''f (Unknown)'', contentOverride = None, desiredBlockLength = None\<rparr>] \<and>
   collectCandidates 0 ''x'' None
     (Some \<lparr>activeName = ''f'', activeKind = None, fullRange = Some (mkRange4 0 0 0 1),
        filePath = Some ''src/b.ts'', incomingCalls = None, outgoingCalls = None\<rparr>) 100
   = Inr [\<lparr>priority = 5, candidateRange = mkRange4 0 0 0 1, marker = MARKERS_ACTIVE_SYMBOL,
           description = ''f (Unknown)'', contentOverride = None, desiredBlockLength = None\<rparr>] \<and>
   ''src/a.ts'' \<noteq> ''src/b.ts'' \<and>
   intelligentlySummarizeFileContent 0 ''x'' None
     (Some \<lparr>activeName = ''f'', activeKind = None, fullRange = Some (mkRange4 0 0 0 1),
        filePath = Some ''src/b.ts'', incomingCalls = None, outgoingCalls = None\<rparr>) 100
   = Inr ''// [ACTIVE_SYMBOL: f (Unknown)]\<newline>x\<newline>// [END_SECTION: ACTIVE_SYMBOL]''"
proof -
  have "intelligentlySummarizeFileContent 0 ''x'' None
     (Some \<lparr>activeName = ''f'', activeKind = None, fullRange = Some (mkRange4 0 0 0 1),
        filePath = Some ''src/b.ts'', incomingCalls = None, outgoingCalls = None\<rparr>) 100
   = Inr ''// [ACTIVE_SYMBOL: f (Unknown)]\<newline>x\<newline>// [END_SECTION: ACTIVE_SYMBOL]''"
    by code_simp
  then show ?thesis
    using active_example_candidates [of "''src/a.ts''"] active_example_candidates [of "''src/b.ts''"]
    by simp
qed

end
